theory Spec2Isabelle
  imports Complex_Main "HOL-Library.AList" "HOL-Library.Sublist" "HOL-Library.Log_Nat"
begin

section \<open>The folder monitor of \<^verbatim>\<open>src/folder_monitor.py\<close>\<close>

text \<open>
  The class \<^verbatim>\<open>FolderMonitor\<close> keeps a dictionary from folder paths to byte limits and a
  list of the alerts it has raised. Its methods read the file system through
  \<^verbatim>\<open>os.path.exists\<close>, \<^verbatim>\<open>os.path.isdir\<close>, \<^verbatim>\<open>os.walk\<close> and \<^verbatim>\<open>os.path.getsize\<close>, and the clock
  through \<^verbatim>\<open>time.time\<close> and \<^verbatim>\<open>time.strftime\<close>. The file system and the clock are inputs of
  the model; \<^verbatim>\<open>print\<close> writes to the console only and is left out.
\<close>

subsection \<open>Exceptions\<close>

text \<open>
  \<^verbatim>\<open>get_folder_size\<close> raises \<^verbatim>\<open>OSError\<close> with a message; converting an integer beyond the
  range of a double to \<^verbatim>\<open>float\<close> raises \<^verbatim>\<open>OverflowError\<close>, and so does a true division with
  such a quotient; dividing by zero raises \<^verbatim>\<open>ZeroDivisionError\<close>. A computation that may
  raise returns \<open>Inl\<close> of the exception, \<open>Inr\<close> of its value otherwise.
\<close>

datatype py_error = OSError string | OverflowError | ZeroDivisionError

subsection \<open>The file system\<close>

text \<open>
  What the two calls \<^verbatim>\<open>os.path.exists(file_path)\<close> and \<^verbatim>\<open>os.path.getsize(file_path)\<close> observe
  for a name that a directory listing returned: a file of some size; nothing any more
  (\<^verbatim>\<open>exists\<close> is false, and so it is when \<^verbatim>\<open>stat\<close> is refused); or a file that is
  there for \<^verbatim>\<open>exists\<close> and gone for \<^verbatim>\<open>getsize\<close>, which then raises \<^verbatim>\<open>OSError\<close>.
\<close>

datatype file_entry = Regular nat | Vanished | Unreadable

text \<open>
  A node is a file or a directory with its listing, in listing order. Directories can
  be listed and hold no symbolic links (\<^verbatim>\<open>os.walk\<close> passes over a directory it cannot
  list and does not follow links).
\<close>

datatype fs_node = File file_entry | Dir "(string \<times> fs_node) list"

text \<open>The file system answers a path string with the node found there, if any.\<close>

type_synonym filesystem = "string \<Rightarrow> fs_node option"

fun file_exists :: "file_entry \<Rightarrow> bool" where
  "file_exists (Regular n) = True"
| "file_exists Vanished = False"
| "file_exists Unreadable = True"

fun os_path_getsize :: "file_entry \<Rightarrow> py_error + nat" where
  "os_path_getsize (Regular n) = Inr n"
| "os_path_getsize Vanished = Inl (OSError ''No such file or directory'')"
| "os_path_getsize Unreadable = Inl (OSError ''No such file or directory'')"

definition os_path_exists :: "filesystem \<Rightarrow> string \<Rightarrow> bool" where
  "os_path_exists fs path =
     (case fs path of None \<Rightarrow> False | Some (File f) \<Rightarrow> file_exists f | Some (Dir es) \<Rightarrow> True)"

definition os_path_isdir :: "filesystem \<Rightarrow> string \<Rightarrow> bool" where
  "os_path_isdir fs path =
     (case fs path of None \<Rightarrow> False | Some (File f) \<Rightarrow> False | Some (Dir es) \<Rightarrow> True)"

definition os_path_join :: "string \<Rightarrow> string \<Rightarrow> string" where
  "os_path_join a b =
     (if b \<noteq> [] \<and> hd b = CHR ''/'' then b
      else if a = [] \<or> last a = CHR ''/'' then a @ b
      else a @ ''/'' @ b)"

text \<open>
  \<^verbatim>\<open>os.walk(top)\<close> yields, top-down, one triple per directory: its path, the names of its
  subdirectories and the names of its other entries. The model pairs each file name with
  what the later calls on its path observe.
\<close>

type_synonym walk_triple = "string \<times> string list \<times> (string \<times> file_entry) list"

fun dirnames_of :: "(string \<times> fs_node) list \<Rightarrow> string list" where
  "dirnames_of [] = []"
| "dirnames_of ((name, Dir ds) # es) = name # dirnames_of es"
| "dirnames_of ((name, File f) # es) = dirnames_of es"

fun filenames_of :: "(string \<times> fs_node) list \<Rightarrow> (string \<times> file_entry) list" where
  "filenames_of [] = []"
| "filenames_of ((name, Dir ds) # es) = filenames_of es"
| "filenames_of ((name, File f) # es) = (name, f) # filenames_of es"

fun os_walk :: "string \<Rightarrow> fs_node \<Rightarrow> walk_triple list"
  and walk_subdirs :: "string \<Rightarrow> (string \<times> fs_node) list \<Rightarrow> walk_triple list" where
  "os_walk dirpath (File f) = []"
| "os_walk dirpath (Dir es) = (dirpath, dirnames_of es, filenames_of es) # walk_subdirs dirpath es"
| "walk_subdirs dirpath [] = []"
| "walk_subdirs dirpath ((name, File f) # es) = walk_subdirs dirpath es"
| "walk_subdirs dirpath ((name, Dir ds) # es) =
     os_walk (os_path_join dirpath name) (Dir ds) @ walk_subdirs dirpath es"

subsection \<open>Measuring a folder: \<^verbatim>\<open>get_folder_size\<close>\<close>

text \<open>
  The inner loop over \<^verbatim>\<open>filenames\<close>: the size is added when the file exists; an
  \<^verbatim>\<open>OSError\<close> of \<^verbatim>\<open>getsize\<close> is caught and the loop goes on with the next name.
\<close>

fun add_file_sizes :: "nat \<Rightarrow> (string \<times> file_entry) list \<Rightarrow> nat" where
  "add_file_sizes total_size [] = total_size"
| "add_file_sizes total_size ((filename, f) # rest) =
     (if file_exists f then
        (case os_path_getsize f of
           Inr n \<Rightarrow> add_file_sizes (total_size + n) rest
         | Inl e \<Rightarrow> add_file_sizes total_size rest)
      else add_file_sizes total_size rest)"

text \<open>The outer loop over the triples of the walk.\<close>

fun add_walk_sizes :: "nat \<Rightarrow> walk_triple list \<Rightarrow> nat" where
  "add_walk_sizes total_size [] = total_size"
| "add_walk_sizes total_size ((dirpath, dirnames, filenames) # rest) =
     add_walk_sizes (add_file_sizes total_size filenames) rest"

definition not_found_message :: "string \<Rightarrow> string" where
  "not_found_message folder_path =
     ''Folder '' @ [CHR 0x27] @ folder_path @ [CHR 0x27] @ '' does not exist.''"

definition not_a_directory_message :: "string \<Rightarrow> string" where
  "not_a_directory_message folder_path =
     [CHR 0x27] @ folder_path @ [CHR 0x27] @ '' is not a directory.''"

text \<open>The walk from a path: nothing is yielded where there is nothing to list.\<close>

definition os_walk_from :: "filesystem \<Rightarrow> string \<Rightarrow> walk_triple list" where
  "os_walk_from fs folder_path =
     (case fs folder_path of None \<Rightarrow> [] | Some node \<Rightarrow> os_walk folder_path node)"

definition get_folder_size :: "filesystem \<Rightarrow> string \<Rightarrow> py_error + int" where
  "get_folder_size fs folder_path =
     (if \<not> os_path_exists fs folder_path then Inl (OSError (not_found_message folder_path))
      else if \<not> os_path_isdir fs folder_path then
        Inl (OSError (not_a_directory_message folder_path))
      else Inr (int (add_walk_sizes 0 (os_walk_from fs folder_path))))"

text \<open>
  The sum the specification describes: the sizes of all regular files of a subtree, at
  any depth.
\<close>

fun subtree_size :: "fs_node \<Rightarrow> nat"
  and entries_size :: "(string \<times> fs_node) list \<Rightarrow> nat" where
  "subtree_size (File (Regular n)) = n"
| "subtree_size (File Vanished) = 0"
| "subtree_size (File Unreadable) = 0"
| "subtree_size (Dir es) = entries_size es"
| "entries_size [] = 0"
| "entries_size ((name, node) # es) = subtree_size node + entries_size es"

text \<open>The sizes that a listing's files contribute: those of the files that can be read.\<close>

definition accessible_sizes :: "(string \<times> file_entry) list \<Rightarrow> nat list" where
  "accessible_sizes files = [n. (name, Regular n) \<leftarrow> files]"

text \<open>
  A small file system: \<^verbatim>\<open>/data\<close> holds a file of 1024 bytes, a subdirectory with
  a file of 2048 bytes, a name whose file vanished after the listing and one whose size
  cannot be read; \<^verbatim>\<open>/big\<close> holds one file of 2 MiB; \<^verbatim>\<open>/empty\<close> is an empty directory.
\<close>

definition example_fs :: filesystem where
  "example_fs path =
     (if path = ''/data'' then
        Some (Dir [(''file1.txt'', File (Regular 1024)),
                   (''gone.tmp'', File Vanished),
                   (''subdir'', Dir [(''file2.txt'', File (Regular 2048)),
                                     (''locked.bin'', File Unreadable)])])
      else if path = ''/data/file1.txt'' then Some (File (Regular 1024))
      else if path = ''/empty'' then Some (Dir [])
      else if path = ''/big'' then Some (Dir [(''large.txt'', File (Regular 2097152))])
      else None)"

subsection \<open>Floating-point numbers\<close>

text \<open>
  A Python \<^verbatim>\<open>float\<close> is an IEEE 754 double: an infinity, or \<open>m * 2 powi e\<close> for a
  significand \<open>m\<close> of at most 53 bits and an exponent \<open>e\<close> of at least \<open>- 1074\<close>, below
  \<open>2 ^ 1024\<close> in absolute value. An operation returns the double nearest to its exact
  result, the one with the even significand on a tie. Neither a NaN nor a negative zero
  arises in this program.
\<close>

datatype py_float = Float int int | Infinity | NegInfinity

fun float_value :: "py_float \<Rightarrow> rat" where
  "float_value (Float m e) = of_int m * 2 powi e"
| "float_value Infinity = 0"
| "float_value NegInfinity = 0"

text \<open>
  The integer nearest to \<open>n / d\<close>, for \<open>n\<close> not negative and \<open>d\<close> positive; the even one
  on a tie. Rounding is symmetric: a negative value is rounded in its absolute value.
\<close>

definition round_half_even_div :: "int \<Rightarrow> int \<Rightarrow> int" where
  "round_half_even_div n d =
     (let q = n div d; r = n mod d
      in if 2 * r < d then q else if d < 2 * r then q + 1 else if even q then q else q + 1)"

text \<open>
  The float \<open>m * 2 powi e\<close> for a significand that fits; beyond the largest double it is
  an infinity. A significand of 54 bits comes from rounding up to \<open>2 ^ 53\<close> and is
  halved.
\<close>

definition make_float :: "int \<Rightarrow> int \<Rightarrow> py_float" where
  "make_float m e =
     (let (m', e') = (if 53 < bitlen \<bar>m\<bar> then (m div 2, e + 1) else (m, e))
      in if 0 \<le> e' \<and> 2 ^ 1024 \<le> \<bar>m'\<bar> * 2 ^ nat e' then (if 0 < m' then Infinity else NegInfinity)
         else Float m' e')"

text \<open>The double nearest to \<open>m * 2 powi e\<close>, for any integers \<open>m\<close> and \<open>e\<close>.\<close>

definition round_float :: "int \<Rightarrow> int \<Rightarrow> py_float" where
  "round_float m e =
     (let shift = max (bitlen \<bar>m\<bar> - 53) (- 1074 - e)
      in if shift \<le> 0 then make_float m e
         else make_float (sgn m * round_half_even_div \<bar>m\<bar> (2 ^ nat shift)) (e + shift))"

text \<open>\<^verbatim>\<open>float(n)\<close> on an integer.\<close>

definition int_to_float :: "int \<Rightarrow> py_error + py_float" where
  "int_to_float n =
     (case round_float n 0 of
        Float m e \<Rightarrow> Inr (Float m e)
      | Infinity \<Rightarrow> Inl OverflowError
      | NegInfinity \<Rightarrow> Inl OverflowError)"

text \<open>
  \<^verbatim>\<open>a / b\<close> on two integers: the double nearest to the quotient. The exponent \<open>k\<close> with
  \<open>2 powi k \<le> a / b < 2 powi (k + 1)\<close> comes first, for positive \<open>a\<close> and \<open>b\<close>.
\<close>

definition floor_log2_quotient :: "int \<Rightarrow> int \<Rightarrow> int" where
  "floor_log2_quotient a b =
     (let k = bitlen a - bitlen b
      in if (if 0 \<le> k then b * 2 ^ nat k \<le> a else b \<le> a * 2 ^ nat (- k)) then k else k - 1)"

definition int_truediv :: "int \<Rightarrow> int \<Rightarrow> py_error + py_float" where
  "int_truediv a b =
     (if b = 0 then Inl ZeroDivisionError
      else if a = 0 then Inr (Float 0 0)
      else (let p = max (floor_log2_quotient \<bar>a\<bar> \<bar>b\<bar> - 52) (- 1074);
                m = (if 0 \<le> p then round_half_even_div \<bar>a\<bar> (\<bar>b\<bar> * 2 ^ nat p)
                     else round_half_even_div (\<bar>a\<bar> * 2 ^ nat (- p)) \<bar>b\<bar>)
            in case make_float (sgn a * sgn b * m) p of
                 Float m' e' \<Rightarrow> Inr (Float m' e')
               | Infinity \<Rightarrow> Inl OverflowError
               | NegInfinity \<Rightarrow> Inl OverflowError))"

text \<open>A float compared with \<^verbatim>\<open>1024.0\<close>, divided by it, and multiplied by \<^verbatim>\<open>100\<close>.\<close>

fun float_less_1024 :: "py_float \<Rightarrow> bool" where
  "float_less_1024 (Float m e) =
     (if 0 \<le> e then m * 2 ^ nat e < 1024 else m < 1024 * 2 ^ nat (- e))"
| "float_less_1024 Infinity = False"
| "float_less_1024 NegInfinity = True"

fun float_div_1024 :: "py_float \<Rightarrow> py_float" where
  "float_div_1024 (Float m e) = round_float m (e - 10)"
| "float_div_1024 Infinity = Infinity"
| "float_div_1024 NegInfinity = NegInfinity"

fun float_mul_100 :: "py_float \<Rightarrow> py_float" where
  "float_mul_100 (Float m e) = round_float (m * 100) e"
| "float_mul_100 Infinity = Infinity"
| "float_mul_100 NegInfinity = NegInfinity"

text \<open>
  The format \<^verbatim>\<open>.2f\<close>: the exact value rounded to hundredths (ties to even), written with
  all its integer digits, a point and two decimals.
\<close>

definition digit_char :: "int \<Rightarrow> char" where
  "digit_char d = ''0123456789'' ! nat d"

function str_digits :: "int \<Rightarrow> string" where
  "str_digits n =
     (if n < 10 then [digit_char n] else str_digits (n div 10) @ [digit_char (n mod 10)])"
  by pat_completeness auto
termination
  by (relation "measure nat") auto

text \<open>The hundredths in \<open>\<bar>m\<bar> * 2 powi e\<close>, rounded.\<close>

definition hundredths :: "int \<Rightarrow> int \<Rightarrow> int" where
  "hundredths m e =
     (if 0 \<le> e then \<bar>m\<bar> * 100 * 2 ^ nat e
      else round_half_even_div (\<bar>m\<bar> * 100) (2 ^ nat (- e)))"

text \<open>A count of hundredths written as a decimal number.\<close>

definition str_hundredths :: "int \<Rightarrow> string" where
  "str_hundredths c =
     str_digits (c div 100) @ ''.'' @ [digit_char (c mod 100 div 10), digit_char (c mod 10)]"

fun format_2f :: "py_float \<Rightarrow> string" where
  "format_2f (Float m e) = (if m < 0 then ''-'' else []) @ str_hundredths (hundredths m e)"
| "format_2f Infinity = ''inf''"
| "format_2f NegInfinity = ''-inf''"

subsection \<open>Formatting a size: \<^verbatim>\<open>format_size\<close>\<close>

text \<open>
  The variable \<^verbatim>\<open>size_bytes\<close> holds the integer argument at first and a float after
  the first division.
\<close>

datatype py_num = PyInt int | PyFloat py_float

fun less_than_1024 :: "py_num \<Rightarrow> bool" where
  "less_than_1024 (PyInt n) = (n < 1024)"
| "less_than_1024 (PyFloat x) = float_less_1024 x"

fun to_float :: "py_num \<Rightarrow> py_error + py_float" where
  "to_float (PyInt n) = int_to_float n"
| "to_float (PyFloat x) = Inr x"

definition format_spec_2f :: "py_num \<Rightarrow> py_error + string" where
  "format_spec_2f size_bytes =
     (case to_float size_bytes of Inl e \<Rightarrow> Inl e | Inr x \<Rightarrow> Inr (format_2f x))"

definition divide_by_1024 :: "py_num \<Rightarrow> py_error + py_num" where
  "divide_by_1024 size_bytes =
     (case to_float size_bytes of Inl e \<Rightarrow> Inl e | Inr x \<Rightarrow> Inr (PyFloat (float_div_1024 x)))"

fun format_size_loop :: "string list \<Rightarrow> py_num \<Rightarrow> py_error + string" where
  "format_size_loop [] size_bytes =
     (case format_spec_2f size_bytes of Inl e \<Rightarrow> Inl e | Inr s \<Rightarrow> Inr (s @ '' PB''))"
| "format_size_loop (u # units) size_bytes =
     (if less_than_1024 size_bytes then
        (case format_spec_2f size_bytes of Inl e \<Rightarrow> Inl e | Inr s \<Rightarrow> Inr (s @ '' '' @ u))
      else (case divide_by_1024 size_bytes of
              Inl e \<Rightarrow> Inl e
            | Inr y \<Rightarrow> format_size_loop units y))"

definition format_size :: "int \<Rightarrow> py_error + string" where
  "format_size size_bytes =
     format_size_loop [''B'', ''KB'', ''MB'', ''GB'', ''TB''] (PyInt size_bytes)"

subsection \<open>The monitor and its watch-list\<close>

text \<open>
  A violation and an alert are dictionaries with fixed keys; the watch-list is a
  dictionary, kept as an association list in insertion order: assigning to a present key
  keeps its place, a new key goes to the end.
\<close>

record violation =
  folder_path :: string
  current_size :: int
  size_limit :: int
  current_size_formatted :: string
  size_limit_formatted :: string
  excess_size :: int
  excess_size_formatted :: string

record alert =
  timestamp :: rat
  violation :: violation
  message :: string

record monitor =
  monitoring_config :: "(string \<times> int) list"
  alerts_triggered :: "alert list"

definition init :: "(string \<times> int) list option \<Rightarrow> monitor" where
  "init config =
     \<lparr>monitoring_config = (case config of None \<Rightarrow> [] | Some c \<Rightarrow> c), alerts_triggered = []\<rparr>"

definition add_folder_to_monitor ::
    "filesystem \<Rightarrow> string \<Rightarrow> int \<Rightarrow> monitor \<Rightarrow> bool \<times> monitor" where
  "add_folder_to_monitor fs path size_limit_mb m =
     (if \<not> os_path_exists fs path then (False, m)
      else if \<not> os_path_isdir fs path then (False, m)
      else (let size_limit_bytes = size_limit_mb * 1024 * 1024
            in (True, m\<lparr>monitoring_config :=
                         AList.update path size_limit_bytes (monitoring_config m)\<rparr>)))"

definition remove_folder_from_monitor :: "string \<Rightarrow> monitor \<Rightarrow> bool \<times> monitor" where
  "remove_folder_from_monitor path m =
     (if path \<in> fst ` set (monitoring_config m)
      then (True, m\<lparr>monitoring_config := AList.delete path (monitoring_config m)\<rparr>)
      else (False, m))"

subsection \<open>Checking the limits: \<^verbatim>\<open>check_folder_limits\<close>\<close>

text \<open>The dictionary literal of a violation, its three sizes formatted in turn.\<close>

definition make_violation :: "string \<Rightarrow> int \<Rightarrow> int \<Rightarrow> py_error + violation" where
  "make_violation path current limit =
     (case format_size current of
        Inl e \<Rightarrow> Inl e
      | Inr current_formatted \<Rightarrow>
          (case format_size limit of
             Inl e \<Rightarrow> Inl e
           | Inr limit_formatted \<Rightarrow>
               (case format_size (current - limit) of
                  Inl e \<Rightarrow> Inl e
                | Inr excess_formatted \<Rightarrow>
                    Inr \<lparr>folder_path = path, current_size = current, size_limit = limit,
                         current_size_formatted = current_formatted,
                         size_limit_formatted = limit_formatted,
                         excess_size = current - limit,
                         excess_size_formatted = excess_formatted\<rparr>)))"

text \<open>The body of the \<^verbatim>\<open>try\<close> block for one entry of the watch-list.\<close>

definition check_entry :: "filesystem \<Rightarrow> string \<Rightarrow> int \<Rightarrow> py_error + violation option" where
  "check_entry fs path limit =
     (case get_folder_size fs path of
        Inl e \<Rightarrow> Inl e
      | Inr current \<Rightarrow>
          if current > limit then
            (case make_violation path current limit of Inl e \<Rightarrow> Inl e | Inr v \<Rightarrow> Inr (Some v))
          else Inr None)"

text \<open>
  The loop over the items of the dictionary: \<^verbatim>\<open>except OSError\<close> prints and goes on with
  the next entry; any other exception leaves the loop and the method.
\<close>

fun check_entries ::
    "filesystem \<Rightarrow> (string \<times> int) list \<Rightarrow> violation list \<Rightarrow> py_error + violation list" where
  "check_entries fs [] violations = Inr violations"
| "check_entries fs ((path, limit) # rest) violations =
     (case check_entry fs path limit of
        Inl (OSError msg) \<Rightarrow> check_entries fs rest violations
      | Inl OverflowError \<Rightarrow> Inl OverflowError
      | Inl ZeroDivisionError \<Rightarrow> Inl ZeroDivisionError
      | Inr None \<Rightarrow> check_entries fs rest violations
      | Inr (Some v) \<Rightarrow> check_entries fs rest (violations @ [v]))"

definition check_folder_limits :: "filesystem \<Rightarrow> monitor \<Rightarrow> py_error + violation list" where
  "check_folder_limits fs m = check_entries fs (monitoring_config m) []"

subsection \<open>Alerts: \<^verbatim>\<open>trigger_alert\<close> and \<^verbatim>\<open>monitor_once\<close>\<close>

text \<open>What one alert reads from the clock: \<^verbatim>\<open>time.strftime\<close> and \<^verbatim>\<open>time.time\<close>.\<close>

record clock_reading =
  time_strftime :: string
  time_time :: rat

text \<open>The siren sign of the message (U+1F6A8), in UTF-8, and the line feed.\<close>

definition siren :: string where
  "siren = [CHR 0xF0, CHR 0x9F, CHR 0x9A, CHR 0xA8]"

definition line_feed :: string where
  "line_feed = [CHR 0x0A]"

definition alert_message :: "violation \<Rightarrow> string \<Rightarrow> string" where
  "alert_message v now =
     siren @ '' FOLDER SIZE ALERT '' @ siren @ line_feed
     @ ''Folder: '' @ folder_path v @ line_feed
     @ ''Current Size: '' @ current_size_formatted v @ line_feed
     @ ''Size Limit: '' @ size_limit_formatted v @ line_feed
     @ ''Excess: '' @ excess_size_formatted v @ line_feed
     @ ''Time: '' @ now @ line_feed
     @ replicate 50 CHR ''-''"

definition trigger_alert :: "clock_reading \<Rightarrow> violation \<Rightarrow> monitor \<Rightarrow> monitor" where
  "trigger_alert clock v m =
     m\<lparr>alerts_triggered :=
         alerts_triggered m
         @ [\<lparr>timestamp = time_time clock, violation = v,
              message = alert_message v (time_strftime clock)\<rparr>]\<rparr>"

text \<open>
  The loop of \<^verbatim>\<open>monitor_once\<close> over the violations; the alert number \<open>i\<close> of a call
  reads the clock \<open>clock i\<close>.
\<close>

fun trigger_alerts ::
    "(nat \<Rightarrow> clock_reading) \<Rightarrow> nat \<Rightarrow> violation list \<Rightarrow> monitor \<Rightarrow> monitor" where
  "trigger_alerts clock i [] m = m"
| "trigger_alerts clock i (v # vs) m = trigger_alerts clock (Suc i) vs (trigger_alert (clock i) v m)"

definition monitor_once ::
    "filesystem \<Rightarrow> (nat \<Rightarrow> clock_reading) \<Rightarrow> monitor \<Rightarrow> (py_error + bool) \<times> monitor" where
  "monitor_once fs clock m =
     (if monitoring_config m = [] then (Inr False, m)
      else (case check_folder_limits fs m of
              Inl e \<Rightarrow> (Inl e, m)
            | Inr violations \<Rightarrow>
                if violations \<noteq> [] then (Inr True, trigger_alerts clock 0 violations m)
                else (Inr False, m)))"

subsection \<open>The status: \<^verbatim>\<open>get_monitoring_status\<close>\<close>

record folder_info =
  info_path :: string
  info_current_size :: int
  info_current_size_formatted :: string
  info_size_limit :: int
  info_size_limit_formatted :: string
  usage_percentage :: py_num
  is_over_limit :: bool

text \<open>An entry of \<^verbatim>\<open>status['folders']\<close>: the sizes of a folder, or its path and an error.\<close>

datatype folder_entry = FolderInfo folder_info | FolderError string string

record status =
  total_folders_monitored :: nat
  folders :: "folder_entry list"
  total_alerts_triggered :: nat

text \<open>\<^verbatim>\<open>(current_size / size_limit) * 100 if size_limit > 0 else 0\<close>\<close>

definition usage_percentage_of :: "int \<Rightarrow> int \<Rightarrow> py_error + py_num" where
  "usage_percentage_of current limit =
     (if limit > 0 then
        (case int_truediv current limit of
           Inl e \<Rightarrow> Inl e
         | Inr x \<Rightarrow> Inr (PyFloat (float_mul_100 x)))
      else Inr (PyInt 0))"

text \<open>The body of the \<^verbatim>\<open>try\<close> block for one entry.\<close>

definition folder_status :: "filesystem \<Rightarrow> string \<Rightarrow> int \<Rightarrow> py_error + folder_info" where
  "folder_status fs path limit =
     (case get_folder_size fs path of
        Inl e \<Rightarrow> Inl e
      | Inr current \<Rightarrow>
          (case format_size current of
             Inl e \<Rightarrow> Inl e
           | Inr current_formatted \<Rightarrow>
               (case format_size limit of
                  Inl e \<Rightarrow> Inl e
                | Inr limit_formatted \<Rightarrow>
                    (case usage_percentage_of current limit of
                       Inl e \<Rightarrow> Inl e
                     | Inr usage \<Rightarrow>
                         Inr \<lparr>info_path = path, info_current_size = current,
                              info_current_size_formatted = current_formatted,
                              info_size_limit = limit,
                              info_size_limit_formatted = limit_formatted,
                              usage_percentage = usage,
                              is_over_limit = (current > limit)\<rparr>))))"

fun status_entries ::
    "filesystem \<Rightarrow> (string \<times> int) list \<Rightarrow> folder_entry list \<Rightarrow> py_error + folder_entry list"
  where
  "status_entries fs [] entries = Inr entries"
| "status_entries fs ((path, limit) # rest) entries =
     (case folder_status fs path limit of
        Inl (OSError msg) \<Rightarrow> status_entries fs rest (entries @ [FolderError path msg])
      | Inl OverflowError \<Rightarrow> Inl OverflowError
      | Inl ZeroDivisionError \<Rightarrow> Inl ZeroDivisionError
      | Inr info \<Rightarrow> status_entries fs rest (entries @ [FolderInfo info]))"

definition get_monitoring_status :: "filesystem \<Rightarrow> monitor \<Rightarrow> py_error + status" where
  "get_monitoring_status fs m =
     (case status_entries fs (monitoring_config m) [] of
        Inl e \<Rightarrow> Inl e
      | Inr entries \<Rightarrow>
          Inr \<lparr>total_folders_monitored = length (monitoring_config m), folders = entries,
               total_alerts_triggered = length (alerts_triggered m)\<rparr>)"

subsection \<open>Calls of the public methods\<close>

text \<open>
  A call of a method on a monitor gives a result, or an exception, and the monitor after
  the call. \<^verbatim>\<open>get_folder_size\<close>, \<^verbatim>\<open>check_folder_limits\<close> and \<^verbatim>\<open>get_monitoring_status\<close>
  assign to no attribute of the monitor.
\<close>

datatype operation =
  Register string int
| Unregister string
| Measure string
| Evaluate
| CheckOnce "nat \<Rightarrow> clock_reading"
| RaiseAlert clock_reading violation
| Status

datatype outcome =
  ReturnsBool bool
| ReturnsSize int
| ReturnsViolations "violation list"
| ReturnsStatus status
| ReturnsNone
| Raises py_error

fun call :: "filesystem \<Rightarrow> operation \<Rightarrow> monitor \<Rightarrow> outcome \<times> monitor" where
  "call fs (Register path limit_mb) m =
     (case add_folder_to_monitor fs path limit_mb m of (ok, m') \<Rightarrow> (ReturnsBool ok, m'))"
| "call fs (Unregister path) m =
     (case remove_folder_from_monitor path m of (ok, m') \<Rightarrow> (ReturnsBool ok, m'))"
| "call fs (Measure path) m =
     (case get_folder_size fs path of Inl e \<Rightarrow> (Raises e, m) | Inr n \<Rightarrow> (ReturnsSize n, m))"
| "call fs Evaluate m =
     (case check_folder_limits fs m of
        Inl e \<Rightarrow> (Raises e, m)
      | Inr vs \<Rightarrow> (ReturnsViolations vs, m))"
| "call fs (CheckOnce clock) m =
     (case monitor_once fs clock m of
        (Inl e, m') \<Rightarrow> (Raises e, m')
      | (Inr found, m') \<Rightarrow> (ReturnsBool found, m'))"
| "call fs (RaiseAlert clock v) m = (ReturnsNone, trigger_alert clock v m)"
| "call fs Status m =
     (case get_monitoring_status fs m of
        Inl e \<Rightarrow> (Raises e, m)
      | Inr st \<Rightarrow> (ReturnsStatus st, m))"

text \<open>A run of calls, each on the file system of its moment.\<close>

fun run :: "(filesystem \<times> operation) list \<Rightarrow> monitor \<Rightarrow> monitor" where
  "run [] m = m"
| "run ((fs, operation) # rest) m = run rest (snd (call fs operation m))"

subsection \<open>Notions of the specification\<close>

text \<open>The integers that \<^verbatim>\<open>float\<close> converts: those that round to a finite double.\<close>

definition float_range :: "int \<Rightarrow> bool" where
  "float_range n \<longleftrightarrow> \<bar>n\<bar> < 2 ^ 1024 - 2 ^ 970"

text \<open>
  The formatting as the specification words it, on exact values: divide by 1024 until
  the value is below 1024 or the units are used up, then write the value rounded to two
  decimals, a space and the unit.
\<close>

definition unit_names :: "string list" where
  "unit_names = [''B'', ''KB'', ''MB'', ''GB'', ''TB'', ''PB'']"

fun divide_until_small :: "nat \<Rightarrow> rat \<Rightarrow> rat \<times> nat" where
  "divide_until_small 0 x = (x, 0)"
| "divide_until_small (Suc units_left) x =
     (if x < 1024 then (x, 0)
      else (case divide_until_small units_left (x / 1024) of (y, j) \<Rightarrow> (y, Suc j)))"

definition round_half_even :: "rat \<Rightarrow> int" where
  "round_half_even x =
     (let f = \<lfloor>x\<rfloor>; r = x - of_int f
      in if r < 1 / 2 then f else if 1 / 2 < r then f + 1 else if even f then f else f + 1)"

definition two_decimals :: "rat \<Rightarrow> string" where
  "two_decimals x =
     (if x < 0 then ''-'' else []) @ str_hundredths (round_half_even (\<bar>x\<bar> * 100))"

definition format_described :: "rat \<Rightarrow> string" where
  "format_described x =
     (case divide_until_small 5 x of (y, j) \<Rightarrow> two_decimals y @ '' '' @ unit_names ! j)"

text \<open>The number of divisions that \<^verbatim>\<open>format_size\<close> makes on an integer.\<close>

definition unit_index :: "int \<Rightarrow> nat" where
  "unit_index n =
     (if n < 1024 then 0 else if n < 1024 ^ 2 then 1 else if n < 1024 ^ 3 then 2
      else if n < 1024 ^ 4 then 3 else if n < 1024 ^ 5 then 4 else 5)"

text \<open>The alert that \<^verbatim>\<open>trigger_alert\<close> records for a violation at a reading of the clock.\<close>

definition alert_of :: "clock_reading \<Rightarrow> violation \<Rightarrow> alert" where
  "alert_of clock v =
     \<lparr>timestamp = time_time clock, violation = v,
      message = alert_message v (time_strftime clock)\<rparr>"

text \<open>
  The violations that the specification describes for a watch-list: for each entry in
  order whose folder can be measured and is larger than its limit, the record with the
  two sizes, their difference and the three formatted.
\<close>

definition formatted :: "int \<Rightarrow> string" where
  "formatted n = (case format_size n of Inr s \<Rightarrow> s | Inl e \<Rightarrow> [])"

definition violation_of :: "string \<Rightarrow> int \<Rightarrow> int \<Rightarrow> violation" where
  "violation_of path current limit =
     \<lparr>folder_path = path, current_size = current, size_limit = limit,
      current_size_formatted = formatted current, size_limit_formatted = formatted limit,
      excess_size = current - limit, excess_size_formatted = formatted (current - limit)\<rparr>"

definition measured :: "filesystem \<Rightarrow> string \<Rightarrow> int list" where
  "measured fs path = (case get_folder_size fs path of Inr n \<Rightarrow> [n] | Inl e \<Rightarrow> [])"

definition expected_violations :: "filesystem \<Rightarrow> (string \<times> int) list \<Rightarrow> violation list" where
  "expected_violations fs config =
     [violation_of path n limit. (path, limit) \<leftarrow> config, n \<leftarrow> measured fs path, limit < n]"

text \<open>
  The sizes that a pass formats convert to floats: for each entry over its limit, the
  size of the folder, the limit and the excess.
\<close>

definition violations_in_float_range :: "filesystem \<Rightarrow> (string \<times> int) list \<Rightarrow> bool" where
  "violations_in_float_range fs config \<longleftrightarrow>
     (\<forall>(path, limit) \<in> set config. \<forall>n \<in> set (measured fs path).
        limit < n \<longrightarrow> float_range n \<and> float_range limit \<and> float_range (n - limit))"

text \<open>
  The entry that the specification describes for a folder of the watch-list: its path
  and the message of the error when it cannot be measured; its sizes, their formatted
  renditions, the percentage and the flag otherwise.
\<close>

definition expected_usage :: "int \<Rightarrow> int \<Rightarrow> py_num" where
  "expected_usage current limit =
     (if 0 < limit then
        (case int_truediv current limit of
           Inr x \<Rightarrow> PyFloat (float_mul_100 x)
         | Inl e \<Rightarrow> PyInt 0)
      else PyInt 0)"

definition expected_entry :: "filesystem \<Rightarrow> string \<Rightarrow> int \<Rightarrow> folder_entry" where
  "expected_entry fs path limit =
     (case get_folder_size fs path of
        Inl e \<Rightarrow>
          FolderError path
            (case e of OSError msg \<Rightarrow> msg | OverflowError \<Rightarrow> [] | ZeroDivisionError \<Rightarrow> [])
      | Inr n \<Rightarrow>
          FolderInfo
            \<lparr>info_path = path, info_current_size = n,
             info_current_size_formatted = formatted n,
             info_size_limit = limit, info_size_limit_formatted = formatted limit,
             usage_percentage = expected_usage n limit,
             is_over_limit = (limit < n)\<rparr>)"

text \<open>The sizes that a status formats convert to floats.\<close>

definition status_in_float_range :: "filesystem \<Rightarrow> (string \<times> int) list \<Rightarrow> bool" where
  "status_in_float_range fs config \<longleftrightarrow>
     (\<forall>(path, limit) \<in> set config. \<forall>n \<in> set (measured fs path).
        float_range n \<and> float_range limit)"

text \<open>A watch-list over the small file system, its one violation, and a clock.\<close>

definition example_monitor :: monitor where
  "example_monitor =
     \<lparr>monitoring_config = [(''/missing'', 5), (''/big'', 1048576), (''/data'', 10485760)],
      alerts_triggered = []\<rparr>"

definition example_violation :: violation where
  "example_violation =
     \<lparr>folder_path = ''/big'', current_size = 2097152, size_limit = 1048576,
      current_size_formatted = ''2.00 MB'', size_limit_formatted = ''1.00 MB'',
      excess_size = 1048576, excess_size_formatted = ''1.00 MB''\<rparr>"

definition example_clock :: "nat \<Rightarrow> clock_reading" where
  "example_clock i =
     \<lparr>time_strftime = ''2024-01-01 00:00:00'', time_time = 1704067200 + of_nat i\<rparr>"

definition example_status :: status where
  "example_status =
     \<lparr>total_folders_monitored = 3,
      folders =
        [FolderError ''/missing'' ''Folder '/missing' does not exist.'',
         FolderInfo
           \<lparr>info_path = ''/big'', info_current_size = 2097152,
            info_current_size_formatted = ''2.00 MB'',
            info_size_limit = 1048576, info_size_limit_formatted = ''1.00 MB'',
            usage_percentage = PyFloat (Float 7036874417766400 (- 45)),
            is_over_limit = True\<rparr>,
         FolderInfo
           \<lparr>info_path = ''/data'', info_current_size = 3072,
            info_current_size_formatted = ''3.00 KB'',
            info_size_limit = 10485760, info_size_limit_formatted = ''10.00 MB'',
            usage_percentage = PyFloat (Float 8444249301319680 (- 58)),
            is_over_limit = False\<rparr>],
      total_alerts_triggered = 0\<rparr>"

section \<open>Properties\<close>

subsection \<open>Registration\<close>

lemma os_path_isdir_exists: "os_path_isdir fs path \<Longrightarrow> os_path_exists fs path"
  by (simp add: os_path_isdir_def os_path_exists_def split: option.splits fs_node.splits)

text \<open>
  C3. Registering an existing directory returns success and stores
  \<open>limit_mb * 1024 * 1024\<close> under exactly that path, at the place of the old entry or as a
  new entry, with every other key and the alerts as they were; registering a path that
  does not exist, or that is not a directory, returns failure with the monitor
  unchanged.
\<close>

theorem register_stores_limit_in_bytes:
  "(os_path_isdir fs path \<longrightarrow>
      fst (add_folder_to_monitor fs path limit_mb m) = True
      \<and> monitoring_config (snd (add_folder_to_monitor fs path limit_mb m))
          = AList.update path (limit_mb * 1024 * 1024) (monitoring_config m)
      \<and> map_of (monitoring_config (snd (add_folder_to_monitor fs path limit_mb m))) path
          = Some (limit_mb * 1024 * 1024)
      \<and> (\<forall>other. other \<noteq> path \<longrightarrow>
            map_of (monitoring_config (snd (add_folder_to_monitor fs path limit_mb m))) other
              = map_of (monitoring_config m) other)
      \<and> alerts_triggered (snd (add_folder_to_monitor fs path limit_mb m)) = alerts_triggered m)
   \<and> (\<not> os_path_exists fs path \<or> \<not> os_path_isdir fs path \<longrightarrow>
        add_folder_to_monitor fs path limit_mb m = (False, m))"
  by (auto simp: add_folder_to_monitor_def Let_def os_path_isdir_exists AList.update_conv')

theorem register_stores_limit_in_bytes_witness:
  "add_folder_to_monitor example_fs ''/data'' 10 (init None) =
     (True, \<lparr>monitoring_config = [(''/data'', 10485760)], alerts_triggered = []\<rparr>)
   \<and> add_folder_to_monitor example_fs ''/data'' 10 (init (Some [(''/data'', 7), (''/empty'', 3)])) =
     (True, \<lparr>monitoring_config = [(''/data'', 10485760), (''/empty'', 3)],
             alerts_triggered = []\<rparr>)
   \<and> add_folder_to_monitor example_fs ''/missing'' 10 (init None) = (False, init None)
   \<and> add_folder_to_monitor example_fs ''/data/file1.txt'' 10 (init None) = (False, init None)"
proof -
  have d: "os_path_isdir example_fs ''/data''"
    by (simp add: os_path_isdir_def example_fs_def)
  have m: "\<not> os_path_exists example_fs ''/missing''"
    by (simp add: os_path_exists_def example_fs_def)
  have f: "\<not> os_path_isdir example_fs ''/data/file1.txt''"
    by (simp add: os_path_isdir_def example_fs_def)
  from register_stores_limit_in_bytes [of example_fs "''/data''" 10 "init None"] d
  have "add_folder_to_monitor example_fs ''/data'' 10 (init None) =
     (True, \<lparr>monitoring_config = [(''/data'', 10485760)], alerts_triggered = []\<rparr>)"
    by (simp add: init_def prod_eq_iff)
  moreover
  from register_stores_limit_in_bytes
    [of example_fs "''/data''" 10 "init (Some [(''/data'', 7), (''/empty'', 3)])"] d
  have "add_folder_to_monitor example_fs ''/data'' 10
          (init (Some [(''/data'', 7), (''/empty'', 3)])) =
     (True, \<lparr>monitoring_config = [(''/data'', 10485760), (''/empty'', 3)],
             alerts_triggered = []\<rparr>)"
    by (simp add: init_def prod_eq_iff)
  moreover
  from register_stores_limit_in_bytes [of example_fs "''/missing''" 10 "init None"] m
  have "add_folder_to_monitor example_fs ''/missing'' 10 (init None) = (False, init None)"
    by simp
  moreover
  from register_stores_limit_in_bytes [of example_fs "''/data/file1.txt''" 10 "init None"] f
  have "add_folder_to_monitor example_fs ''/data/file1.txt'' 10 (init None) = (False, init None)"
    by simp
  ultimately show ?thesis by simp
qed

text \<open>
  C1 (as stated, refuted). \<^verbatim>\<open>add_folder_to_monitor\<close> has no check of the limit: with
  the limit 0 on the existing directory \<^verbatim>\<open>/empty\<close> it returns \<open>True\<close> and stores the
  entry.
\<close>

theorem register_accepts_zero_limit:
  "add_folder_to_monitor example_fs ''/empty'' 0 (init None) =
     (True, \<lparr>monitoring_config = [(''/empty'', 0)], alerts_triggered = []\<rparr>)"
  by (simp add: add_folder_to_monitor_def example_fs_def init_def os_path_exists_def
      os_path_isdir_def)

text \<open>
  C1 (amended). For a limit that is not positive, registration is decided by the path
  alone: on an existing directory it returns success and stores
  \<open>limit_mb * 1024 * 1024\<close>, a value that is not positive, under that path; on any other
  path it returns failure and leaves the monitor unchanged.
\<close>

theorem register_does_not_check_limit:
  assumes "limit_mb \<le> 0"
  shows "(os_path_isdir fs path \<longrightarrow>
            add_folder_to_monitor fs path limit_mb m =
              (True, m\<lparr>monitoring_config :=
                         AList.update path (limit_mb * 1024 * 1024) (monitoring_config m)\<rparr>)
            \<and> map_of (monitoring_config (snd (add_folder_to_monitor fs path limit_mb m))) path
                = Some (limit_mb * 1024 * 1024)
            \<and> limit_mb * 1024 * 1024 \<le> 0)
       \<and> (\<not> os_path_isdir fs path \<longrightarrow> add_folder_to_monitor fs path limit_mb m = (False, m))"
  using assms
  by (auto simp: add_folder_to_monitor_def Let_def os_path_isdir_exists AList.update_conv'
      mult_le_0_iff)

theorem register_does_not_check_limit_witness:
  "add_folder_to_monitor example_fs ''/empty'' (- 5) (init None) =
     (True, \<lparr>monitoring_config = [(''/empty'', - 5242880)], alerts_triggered = []\<rparr>)
   \<and> add_folder_to_monitor example_fs ''/missing'' (- 5) (init None) = (False, init None)"
proof -
  have neg: "(- 5 :: int) \<le> 0" by simp
  have d: "os_path_isdir example_fs ''/empty''"
    by (simp add: os_path_isdir_def example_fs_def)
  have nd: "\<not> os_path_isdir example_fs ''/missing''"
    by (simp add: os_path_isdir_def example_fs_def)
  from register_does_not_check_limit [OF neg, of example_fs "''/empty''" "init None"] d
    register_does_not_check_limit [OF neg, of example_fs "''/missing''" "init None"] nd
  show ?thesis by (simp add: init_def)
qed

subsection \<open>Measurement\<close>

lemma add_file_sizes_acc: "add_file_sizes t files = t + add_file_sizes 0 files"
proof (induction files arbitrary: t)
  case Nil
  show ?case by simp
next
  case (Cons a files)
  obtain name f where a: "a = (name, f)" by (cases a)
  show ?case
    using Cons.IH [of "t + (case f of Regular n \<Rightarrow> n | _ \<Rightarrow> 0)"]
      Cons.IH [of "case f of Regular n \<Rightarrow> n | _ \<Rightarrow> 0"] Cons.IH [of t]
    by (cases f) (simp_all add: a)
qed

lemma add_walk_sizes_acc: "add_walk_sizes t w = t + add_walk_sizes 0 w"
proof (induction w arbitrary: t)
  case Nil
  show ?case by simp
next
  case (Cons a w)
  obtain d ds files where a: "a = (d, ds, files)" by (cases a)
  show ?case
    using Cons.IH [of "add_file_sizes t files"] Cons.IH [of "add_file_sizes 0 files"]
      add_file_sizes_acc [of t files]
    by (simp add: a)
qed

lemma add_walk_sizes_append:
  "add_walk_sizes t (xs @ ys) = add_walk_sizes (add_walk_sizes t xs) ys"
  by (induction xs arbitrary: t) auto

text \<open>The two loops over the walk of a directory add up the sizes of its subtree.\<close>

lemma walk_sizes_subtree:
  "add_walk_sizes 0 (os_walk p node) =
     (case node of File f \<Rightarrow> 0 | Dir ds \<Rightarrow> entries_size ds)"
  "add_file_sizes 0 (filenames_of es) + add_walk_sizes 0 (walk_subdirs p es) = entries_size es"
proof (induction p node and p es rule: os_walk_walk_subdirs.induct)
  case (1 dirpath f)
  show ?case by simp
next
  case (2 dirpath es)
  then show ?case
    using add_walk_sizes_acc [of "add_file_sizes 0 (filenames_of es)" "walk_subdirs dirpath es"]
    by simp
next
  case (3 dirpath)
  show ?case by simp
next
  case (4 dirpath name f es)
  show ?case
  proof (cases f)
    case (Regular n)
    with 4 show ?thesis
      using add_file_sizes_acc [of n "filenames_of es"] by simp
  qed (use 4 in simp_all)
next
  case (5 dirpath name ds es)
  then show ?case
    using add_walk_sizes_acc
      [of "add_walk_sizes 0 (os_walk (os_path_join dirpath name) (Dir ds))"
          "walk_subdirs dirpath es"]
    by (simp add: add_walk_sizes_append)
qed

lemma add_file_sizes_sum: "add_file_sizes t files = t + sum_list (accessible_sizes files)"
proof (induction files arbitrary: t)
  case Nil
  show ?case by (simp add: accessible_sizes_def)
next
  case (Cons a files)
  obtain name f where a: "a = (name, f)" by (cases a)
  show ?case
    using Cons.IH by (cases f) (simp_all add: a accessible_sizes_def)
qed

lemma add_walk_sizes_sum:
  "add_walk_sizes t w =
     t + (\<Sum>(dirpath, dirnames, filenames) \<leftarrow> w. sum_list (accessible_sizes filenames))"
  by (induction w arbitrary: t) (auto simp: add_file_sizes_sum)

lemma get_folder_size_Dir:
  "fs path = Some (Dir es) \<Longrightarrow>
     get_folder_size fs path = Inr (int (add_walk_sizes 0 (os_walk path (Dir es))))"
  by (simp add: get_folder_size_def os_path_exists_def os_path_isdir_def os_walk_from_def)

text \<open>
  C4. On a directory the measurement returns the sum of the sizes of all regular files
  of its subtree, whatever their depth, and 0 on an empty directory; on a path that does
  not exist it raises the error whose message says so, and on a path that exists and is
  not a directory the error with the other message.
\<close>

theorem measure_sums_subtree:
  "(fs path = Some (Dir es) \<longrightarrow> get_folder_size fs path = Inr (int (subtree_size (Dir es))))
   \<and> (fs path = Some (Dir []) \<longrightarrow> get_folder_size fs path = Inr 0)
   \<and> (\<not> os_path_exists fs path \<longrightarrow>
        get_folder_size fs path = Inl (OSError (not_found_message path)))
   \<and> (os_path_exists fs path \<and> \<not> os_path_isdir fs path \<longrightarrow>
        get_folder_size fs path = Inl (OSError (not_a_directory_message path)))
   \<and> not_found_message path \<noteq> not_a_directory_message path"
proof -
  have "get_folder_size fs path = Inr (int (subtree_size (Dir es)))"
    if "fs path = Some (Dir es)" for es
    using get_folder_size_Dir [of fs path es] that walk_sizes_subtree(1) [of path "Dir es"]
    by simp
  moreover have "not_found_message path \<noteq> not_a_directory_message path"
    by (simp add: not_found_message_def not_a_directory_message_def)
  ultimately show ?thesis
    by (auto simp: get_folder_size_def)
qed

theorem measure_sums_subtree_witness:
  "get_folder_size example_fs ''/data'' = Inr 3072
   \<and> get_folder_size example_fs ''/empty'' = Inr 0
   \<and> get_folder_size example_fs ''/missing'' =
       Inl (OSError (''Folder '' @ [CHR 0x27] @ ''/missing'' @ [CHR 0x27] @ '' does not exist.''))
   \<and> get_folder_size example_fs ''/data/file1.txt'' =
       Inl (OSError ([CHR 0x27] @ ''/data/file1.txt'' @ [CHR 0x27] @ '' is not a directory.''))"
proof -
  let ?es = "[(''file1.txt'', File (Regular 1024)), (''gone.tmp'', File Vanished),
              (''subdir'', Dir [(''file2.txt'', File (Regular 2048)),
                                (''locked.bin'', File Unreadable)])]"
  have d: "example_fs ''/data'' = Some (Dir ?es)" by (simp add: example_fs_def)
  have e: "example_fs ''/empty'' = Some (Dir [])" by (simp add: example_fs_def)
  have m: "\<not> os_path_exists example_fs ''/missing''"
    by (simp add: os_path_exists_def example_fs_def)
  have f: "os_path_exists example_fs ''/data/file1.txt''
           \<and> \<not> os_path_isdir example_fs ''/data/file1.txt''"
    by (simp add: os_path_exists_def os_path_isdir_def example_fs_def)
  from measure_sums_subtree [of example_fs "''/data''" ?es] d
  have "get_folder_size example_fs ''/data'' = Inr 3072" by simp
  moreover from measure_sums_subtree [of example_fs "''/empty''" "[]"] e
  have "get_folder_size example_fs ''/empty'' = Inr 0" by simp
  moreover from measure_sums_subtree [of example_fs "''/missing''" "[]"] m
  have "get_folder_size example_fs ''/missing'' = Inl (OSError (not_found_message ''/missing''))"
    by simp
  moreover from measure_sums_subtree [of example_fs "''/data/file1.txt''" "[]"] f
  have "get_folder_size example_fs ''/data/file1.txt'' =
          Inl (OSError (not_a_directory_message ''/data/file1.txt''))"
    by simp
  ultimately show ?thesis
    by (simp add: not_found_message_def not_a_directory_message_def)
qed

text \<open>
  C5. While a directory is measured, a file that cannot be read (it vanished after the
  listing, or reading its size raises) is passed over and nothing else changes: the loop
  over a listing gives the same total with or without that name, and the measurement
  returns, without an error, the sum of the sizes of the files that can be read.
\<close>

theorem measure_skips_inaccessible_files:
  assumes "fs path = Some (Dir es)"
  shows "get_folder_size fs path =
           Inr (int (\<Sum>(dirpath, dirnames, filenames) \<leftarrow> os_walk path (Dir es).
                       sum_list (accessible_sizes filenames)))
         \<and> (\<forall>total_size before name after.
               add_file_sizes total_size (before @ (name, Vanished) # after)
                 = add_file_sizes total_size (before @ after)
               \<and> add_file_sizes total_size (before @ (name, Unreadable) # after)
                 = add_file_sizes total_size (before @ after))"
  using get_folder_size_Dir [of fs path es] assms
    add_walk_sizes_sum [of 0 "os_walk path (Dir es)"]
  by (simp add: add_file_sizes_sum accessible_sizes_def)

theorem measure_skips_inaccessible_files_witness:
  "get_folder_size example_fs ''/data'' = Inr 3072
   \<and> add_file_sizes 0 [(''a'', Regular 5), (''gone.tmp'', Vanished), (''b'', Regular 7)] = 12"
proof -
  let ?es = "[(''file1.txt'', File (Regular 1024)), (''gone.tmp'', File Vanished),
              (''subdir'', Dir [(''file2.txt'', File (Regular 2048)),
                                (''locked.bin'', File Unreadable)])]"
  have d: "example_fs ''/data'' = Some (Dir ?es)" by (simp add: example_fs_def)
  from measure_skips_inaccessible_files [of example_fs "''/data''" ?es, OF d]
  have "get_folder_size example_fs ''/data'' = Inr 3072"
    and "add_file_sizes 0 ([(''a'', Regular 5)] @ (''gone.tmp'', Vanished) # [(''b'', Regular 7)])
           = add_file_sizes 0 ([(''a'', Regular 5)] @ [(''b'', Regular 7)])"
    by (simp_all add: accessible_sizes_def)
  then show ?thesis by simp
qed

subsection \<open>Floats and formatting\<close>

lemmas float_eval = format_size_def format_spec_2f_def divide_by_1024_def int_to_float_def
  round_float_def make_float_def round_half_even_div_def compute_bitlen hundredths_def
  str_hundredths_def digit_char_def Let_def int_truediv_def floor_log2_quotient_def

lemma rhe_lower: "n div d \<le> round_half_even_div n d"
  by (simp add: round_half_even_div_def Let_def)

lemma rhe_upper: "round_half_even_div n d \<le> n div d + 1"
  by (simp add: round_half_even_div_def Let_def)

lemma rhe_ge:
  assumes "0 < d" and "k * d \<le> n"
  shows "k \<le> round_half_even_div n d"
proof -
  have "k * d div d \<le> n div d" using assms by (intro zdiv_mono1)
  then have "k \<le> n div d" using assms by simp
  then show ?thesis using rhe_lower [of n d] by linarith
qed

lemma rhe_le:
  assumes d: "0 < d" and k: "2 * n < (2 * k + 1) * d"
  shows "round_half_even_div n d \<le> k"
proof -
  have n: "n = d * (n div d) + n mod d" by simp
  have "n < (k + 1) * d" using d k by (simp add: algebra_simps)
  moreover have "(k + 1) * d \<le> n" if "k + 1 \<le> n div d"
  proof -
    have "(k + 1) * d \<le> (n div d) * d" using that d by (intro mult_right_mono) simp_all
    also have "\<dots> \<le> n"
    proof -
      have "(n div d) * d + n mod d = n" by simp
      moreover have "0 \<le> n mod d" using d by simp
      ultimately show ?thesis by linarith
    qed
    finally show ?thesis .
  qed
  ultimately have "n div d < k + 1" by fastforce
  then consider "n div d < k" | "n div d = k" by linarith
  then show ?thesis
  proof cases
    case 1
    then show ?thesis using rhe_upper [of n d] by linarith
  next
    case 2
    have "2 * (d * k + n mod d) < (2 * k + 1) * d" using n k 2 by metis
    then have "2 * (n mod d) < d" by (simp add: algebra_simps)
    then show ?thesis using 2 by (simp add: round_half_even_div_def Let_def)
  qed
qed

lemma rhe_exact: "0 < d \<Longrightarrow> round_half_even_div (k * d) d = k"
  by (simp add: round_half_even_div_def Let_def)

lemma make_float_finite:
  assumes "bitlen \<bar>m\<bar> \<le> 53" and "e < 0 \<or> \<bar>m\<bar> * 2 ^ nat e < 2 ^ 1024"
  shows "make_float m e = Float m e"
  using assms by (auto simp: make_float_def)

lemma round_float_exact:
  assumes "bitlen \<bar>m\<bar> \<le> 53" and "- 1074 \<le> e" and "e < 0 \<or> \<bar>m\<bar> * 2 ^ nat e < 2 ^ 1024"
  shows "round_float m e = Float m e"
  using assms make_float_finite [of m e] by (simp add: round_float_def Let_def max_def)

lemma bitlen_le_53: "bitlen \<bar>n\<bar> \<le> 53 \<longleftrightarrow> \<bar>n\<bar> < 2 ^ 53"
  by (simp add: bitlen_le_iff_power)

lemma int_to_float_small:
  assumes "\<bar>n\<bar> < 2 ^ 53"
  shows "int_to_float n = Inr (Float n 0)"
proof -
  have "round_float n 0 = Float n 0"
    using assms by (intro round_float_exact) (simp_all add: bitlen_le_53)
  then show ?thesis by (simp add: int_to_float_def)
qed


lemma bitlen_large:
  assumes "2 ^ 53 \<le> a"
  shows "54 \<le> bitlen a" and "0 < a"
    and "2 ^ 52 * 2 ^ nat (bitlen a - 53) \<le> a" and "a < 2 ^ 53 * 2 ^ nat (bitlen a - 53)"
proof -
  show L: "54 \<le> bitlen a" using assms by (simp add: bitlen_ge_iff_power)
  have "(0::int) < 2 ^ 53" by simp
  with assms show pos: "0 < a" by linarith
  have e1: "nat (bitlen a - 1) = 52 + nat (bitlen a - 53)" using L by linarith
  have e2: "nat (bitlen a) = 53 + nat (bitlen a - 53)" using L by linarith
  from bitlen_bounds [OF pos] show "2 ^ 52 * 2 ^ nat (bitlen a - 53) \<le> a"
    by (simp only: e1 power_add)
  from bitlen_bounds [OF pos] show "a < 2 ^ 53 * 2 ^ nat (bitlen a - 53)"
    by (simp only: e2 power_add)
qed

lemma int_to_float_large:
  assumes big: "2 ^ 53 \<le> \<bar>n\<bar>" and range: "float_range n"
  shows "\<exists>m e. int_to_float n = Inr (Float m e) \<and> 2 ^ 52 \<le> \<bar>m\<bar> \<and> \<bar>m\<bar> < 2 ^ 53 \<and> 1 \<le> e
           \<and> \<bar>m\<bar> * 2 ^ nat e < 2 ^ 1024 \<and> sgn m = sgn n"
proof -
  define a where "a = \<bar>n\<bar>"
  define s where "s = bitlen a - 53"
  define d :: int where "d = 2 ^ nat s"
  define r where "r = round_half_even_div a d"
  have bl: "54 \<le> bitlen a" "0 < a" "2 ^ 52 * d \<le> a" "a < 2 ^ 53 * d"
    using bitlen_large [of a] big by (simp_all add: a_def s_def d_def)
  have s1: "1 \<le> s" using bl(1) by (simp add: s_def)
  have dpos: "0 < d" by (simp add: d_def)
  have a_lt: "a < 2 ^ 1024 - 2 ^ 970" using range by (simp add: float_range_def a_def)
  have "bitlen a \<le> 1024" using a_lt by (simp add: bitlen_le_iff_power)
  then have s_le: "s \<le> 971" by (simp add: s_def)
  have r_ge: "2 ^ 52 \<le> r" unfolding r_def using dpos bl(3) by (intro rhe_ge)
  have r_le: "r \<le> 2 ^ 53" unfolding r_def using dpos bl(4) by (intro rhe_le) simp_all
  have rf: "round_float n 0 = make_float (sgn n * r) s"
    using s1 bl(1) by (simp add: round_float_def Let_def r_def a_def d_def s_def max_def)
  have n0: "n \<noteq> 0" using bl(2) by (simp add: a_def)
  have abs_r: "\<bar>sgn n * r\<bar> = r" using n0 r_ge by (simp add: abs_mult)
  have bound: "r * d < 2 ^ 1024 \<and> (r = 2 ^ 53 \<longrightarrow> s \<le> 970)"
  proof (cases "s = 971")
    case True
    have d971: "d = 2 ^ 971" by (simp add: d_def True)
    have "r \<le> 2 ^ 53 - 1" unfolding r_def using dpos a_lt by (intro rhe_le) (simp_all add: d971)
    then have "r * d \<le> (2 ^ 53 - 1) * d" using dpos by (intro mult_right_mono) simp_all
    then show ?thesis using \<open>r \<le> 2 ^ 53 - 1\<close> by (simp add: d971)
  next
    case False
    then have s970: "s \<le> 970" using s_le by simp
    have "d \<le> 2 ^ 970" unfolding d_def using s970 s1 by (intro power_increasing) simp_all
    then have "r * d \<le> 2 ^ 53 * 2 ^ 970" using r_le r_ge dpos by (intro mult_mono) simp_all
    then show ?thesis using s970 by simp
  qed
  show ?thesis
  proof (cases "r = 2 ^ 53")
    case True
    then have s970: "s \<le> 970" using bound by simp
    have "54 \<le> bitlen r" using True by (simp add: bitlen_ge_iff_power)
    then have bl54: "53 < bitlen \<bar>sgn n * r\<bar>" by (simp only: abs_r)
    have half: "sgn n * r div 2 = sgn n * 2 ^ 52"
      using n0 by (cases "0 < n") (simp_all add: True sgn_if)
    have "(2::int) ^ nat (s + 1) \<le> 2 ^ 971" using s970 s1 by (intro power_increasing) simp_all
    then have "2 ^ 52 * (2::int) ^ nat (s + 1) \<le> 2 ^ 52 * 2 ^ 971" by (intro mult_left_mono) simp_all
    then have fin: "\<bar>sgn n * 2 ^ 52\<bar> * 2 ^ nat (s + 1) < (2::int) ^ 1024"
      using n0 by (simp add: abs_mult)
    have "make_float (sgn n * r) s = Float (sgn n * 2 ^ 52) (s + 1)"
      using bl54 fin by (simp add: make_float_def half)
    then show ?thesis using rf fin n0 s1
      by (simp add: int_to_float_def abs_mult sgn_mult)
  next
    case False
    then have r53: "r < 2 ^ 53" using r_le by simp
    have bl53: "bitlen \<bar>sgn n * r\<bar> \<le> 53"
      unfolding abs_r using r53 by (simp add: bitlen_le_iff_power)
    have "make_float (sgn n * r) s = Float (sgn n * r) s"
      using bl53 bound by (intro make_float_finite) (simp_all add: abs_r d_def)
    then show ?thesis using rf r_ge r53 s1 bound n0
      by (simp add: int_to_float_def abs_r d_def sgn_mult)
  qed
qed


lemma rhe_round_up:
  assumes d: "0 < d" and k: "(2 * k + 1) * d \<le> 2 * n" and odd: "odd k"
  shows "k + 1 \<le> round_half_even_div n d"
proof -
  have n: "(n div d) * d + n mod d = n" by simp
  have r: "0 \<le> n mod d" "n mod d < d" using d by simp_all
  have "k * d \<le> n" using k d by (simp add: algebra_simps)
  then have "k * d div d \<le> n div d" using d by (intro zdiv_mono1)
  then have "k \<le> n div d" using d by simp
  then consider "k + 1 \<le> n div d" | "n div d = k" by linarith
  then show ?thesis
  proof cases
    case 1
    then show ?thesis using rhe_lower [of n d] by linarith
  next
    case 2
    have "(2 * k + 1) * d \<le> 2 * (k * d + n mod d)" using n k 2 by metis
    then have "d \<le> 2 * (n mod d)" by (simp add: algebra_simps)
    then show ?thesis using 2 odd by (simp add: round_half_even_div_def Let_def)
  qed
qed

lemma int_to_float_overflow:
  assumes "\<not> float_range n"
  shows "int_to_float n = Inl OverflowError"
proof -
  define a where "a = \<bar>n\<bar>"
  define s where "s = bitlen a - 53"
  define d :: int where "d = 2 ^ nat s"
  define r where "r = round_half_even_div a d"
  have a_ge: "2 ^ 1024 - 2 ^ 970 \<le> a" using assms by (simp add: float_range_def a_def)
  then have big: "2 ^ 53 \<le> a" by simp
  have bl: "54 \<le> bitlen a" "0 < a" "2 ^ 52 * d \<le> a" "a < 2 ^ 53 * d"
    using bitlen_large [of a] big by (simp_all add: s_def d_def)
  have "1024 \<le> bitlen a" using a_ge by (simp add: bitlen_ge_iff_power)
  then have s971: "971 \<le> s" by (simp add: s_def)
  have dpos: "0 < d" by (simp add: d_def)
  have d_ge: "2 ^ 971 \<le> d" unfolding d_def using s971 by (intro power_increasing) simp_all
  have r_ge: "2 ^ 52 \<le> r" unfolding r_def using dpos bl(3) by (intro rhe_ge)
  have r_le: "r \<le> 2 ^ 53" unfolding r_def using dpos bl(4) by (intro rhe_le) simp_all
  have n0: "n \<noteq> 0" using bl(2) by (simp add: a_def)
  have abs_r: "\<bar>sgn n * r\<bar> = r" using n0 r_ge by (simp add: abs_mult)
  have rf: "round_float n 0 = make_float (sgn n * r) s"
    using s971 bl(1) by (simp add: round_float_def Let_def r_def a_def d_def s_def max_def)
  have r53: "r = 2 ^ 53" if "s = 971"
  proof -
    have d971: "d = 2 ^ 971" by (simp add: d_def that)
    have "(2 ^ 53 - 1) + 1 \<le> r" unfolding r_def using dpos a_ge
      by (intro rhe_round_up) (simp_all add: d971)
    then show ?thesis using r_le by simp
  qed
  have inf: "make_float (sgn n * r) s \<noteq> Float m e" for m e
  proof (cases "r = 2 ^ 53")
    case True
    have "54 \<le> bitlen r" using True by (simp add: bitlen_ge_iff_power)
    then have bl54: "53 < bitlen \<bar>sgn n * r\<bar>" by (simp only: abs_r)
    have half: "sgn n * r div 2 = sgn n * 2 ^ 52"
      using n0 by (cases "0 < n") (simp_all add: True sgn_if)
    have "(2::int) ^ 972 \<le> 2 ^ nat (s + 1)" using s971 by (intro power_increasing) simp_all
    then have "2 ^ 52 * (2::int) ^ 972 \<le> 2 ^ 52 * 2 ^ nat (s + 1)"
      by (intro mult_left_mono) simp_all
    then have "(2::int) ^ 1024 \<le> \<bar>sgn n * 2 ^ 52\<bar> * 2 ^ nat (s + 1)"
      using n0 by (simp add: abs_mult)
    then show ?thesis using bl54 s971 by (simp add: make_float_def half)
  next
    case False
    then have s972: "972 \<le> s" using r53 s971 by fastforce
    have r_lt: "r < 2 ^ 53" using False r_le by simp
    have bl53: "bitlen \<bar>sgn n * r\<bar> \<le> 53"
      unfolding abs_r using r_lt by (simp add: bitlen_le_iff_power)
    have "(2::int) ^ 972 \<le> d" unfolding d_def using s972 by (intro power_increasing) simp_all
    then have "2 ^ 52 * (2::int) ^ 972 \<le> r * d" using r_ge by (intro mult_mono) simp_all
    then have "(2::int) ^ 1024 \<le> \<bar>sgn n * r\<bar> * 2 ^ nat s"
      by (simp add: abs_r d_def)
    then show ?thesis using bl53 s971 by (simp add: make_float_def)
  qed
  show ?thesis
    using inf rf by (cases "make_float (sgn n * r) s") (auto simp: int_to_float_def)
qed

lemma int_to_float_in_range:
  assumes "float_range n"
  shows "\<exists>m e. int_to_float n = Inr (Float m e)"
proof (cases "\<bar>n\<bar> < 2 ^ 53")
  case True
  then show ?thesis using int_to_float_small by blast
next
  case False
  then show ?thesis using int_to_float_large [of n] assms by force
qed

lemma float_div_1024_exact:
  assumes "\<bar>m\<bar> < 2 ^ 53" and "- 1064 \<le> e" and "e < 10 \<or> \<bar>m\<bar> * 2 ^ nat (e - 10) < 2 ^ 1024"
  shows "float_div_1024 (Float m e) = Float m (e - 10)"
  using assms by (simp add: round_float_exact bitlen_le_53)

lemma format_size_small:
  assumes "\<bar>n\<bar> < 2 ^ 53"
  shows "format_size n =
           Inr (format_2f (Float n (- 10 * int (unit_index n))) @ '' '' @ unit_names ! unit_index n)"
proof -
  have f: "int_to_float n = Inr (Float n 0)" using assms by (rule int_to_float_small)
  have d: "float_div_1024 (Float n e) = Float n (e - 10)" if "- 1064 \<le> e" "e < 10" for e
    using that assms by (intro float_div_1024_exact) simp_all
  show ?thesis
    by (simp add: format_size_def format_spec_2f_def divide_by_1024_def f d unit_index_def
        unit_names_def del: float_div_1024.simps)
qed


lemma float_not_less_1024:
  assumes "2 ^ 52 \<le> m" and "- 39 \<le> e"
  shows "\<not> float_less_1024 (Float m e)"
proof (cases "0 \<le> e")
  case True
  have "m * 1 \<le> m * 2 ^ nat e" using assms by (intro mult_left_mono) simp_all
  then have "m \<le> m * 2 ^ nat e" by (simp only: mult_1_right)
  moreover have "(1024::int) < 2 ^ 52" by simp
  ultimately have "\<not> m * 2 ^ nat e < 1024" using assms(1) by linarith
  then show ?thesis using True by simp
next
  case False
  have "(2::int) ^ nat (- e) \<le> 2 ^ 39" using assms by (intro power_increasing) simp_all
  then have "1024 * (2::int) ^ nat (- e) \<le> 1024 * 2 ^ 39" by (intro mult_left_mono) simp_all
  moreover have "1024 * (2::int) ^ 39 < 2 ^ 52" by simp
  ultimately have "\<not> m < 1024 * 2 ^ nat (- e)" using assms(1) by linarith
  then show ?thesis using False by simp
qed

lemma format_size_large:
  assumes f: "int_to_float n = Inr (Float m e)" and n: "2 ^ 53 \<le> n"
    and m: "2 ^ 52 \<le> m" "m < 2 ^ 53" and e: "1 \<le> e" and fin: "m * 2 ^ nat e < 2 ^ 1024"
  shows "format_size n = Inr (format_2f (Float m (e - 50)) @ '' PB'')"
proof -
  have d: "float_div_1024 (Float m (e - k)) = Float m (e - k - 10)" if "0 \<le> k" "k \<le> 40" for k
  proof (rule float_div_1024_exact)
    show "\<bar>m\<bar> < 2 ^ 53" using m by simp
    show "- 1064 \<le> e - k" using e that by simp
    have "(2::int) ^ nat (e - k - 10) \<le> 2 ^ nat e" using that by (intro power_increasing) simp_all
    then have "m * 2 ^ nat (e - k - 10) \<le> m * 2 ^ nat e" using m by (intro mult_left_mono) simp_all
    then have "m * 2 ^ nat (e - k - 10) < 2 ^ 1024" using fin by linarith
    moreover have "\<bar>m\<bar> = m" using m by simp
    ultimately show "e - k < 10 \<or> \<bar>m\<bar> * 2 ^ nat (e - k - 10) < 2 ^ 1024" by (simp only:) simp
  qed
  have l: "\<not> float_less_1024 (Float m (e - k))" if "k \<le> 40" for k
    using m e that by (intro float_not_less_1024) simp_all
  have d0: "float_div_1024 (Float m e) = Float m (e - 10)" using d [of 0] by simp
  have "\<not> n < 1024" using n by simp
  then show ?thesis
    using d [of 10] d [of 20] d [of 30] d [of 40] l [of 10] l [of 20] l [of 30] l [of 40]
    by (simp add: format_size_def format_spec_2f_def divide_by_1024_def f d0
        del: float_div_1024.simps float_less_1024.simps)
qed

lemma format_size_closed:
  assumes "float_range n"
  shows "\<exists>m e. int_to_float n = Inr (Float m e)
           \<and> format_size n =
               Inr (format_2f (Float m (e - 10 * int (unit_index n))) @ '' ''
                    @ unit_names ! unit_index n)
           \<and> (\<bar>n\<bar> < 2 ^ 53 \<longrightarrow> m = n \<and> e = 0)
           \<and> (2 ^ 53 \<le> \<bar>n\<bar> \<longrightarrow> 2 ^ 52 \<le> \<bar>m\<bar> \<and> \<bar>m\<bar> < 2 ^ 53 \<and> 1 \<le> e \<and> sgn m = sgn n)"
proof (cases "\<bar>n\<bar> < 2 ^ 53")
  case True
  show ?thesis
    using True int_to_float_small [OF True] format_size_small [OF True] by simp
next
  case False
  then have big: "2 ^ 53 \<le> \<bar>n\<bar>" by simp
  from int_to_float_large [OF big assms] obtain m e where
    f: "int_to_float n = Inr (Float m e)" and m: "2 ^ 52 \<le> \<bar>m\<bar>" "\<bar>m\<bar> < 2 ^ 53"
    and e: "1 \<le> e" and fin: "\<bar>m\<bar> * 2 ^ nat e < 2 ^ 1024" and sg: "sgn m = sgn n"
    by blast
  have "format_size n =
          Inr (format_2f (Float m (e - 10 * int (unit_index n))) @ '' '' @ unit_names ! unit_index n)"
  proof (cases "0 \<le> n")
    case True
    then have n: "2 ^ 53 \<le> n" using big by simp
    then have "0 < n" by simp
    then have "0 < m" using sg by (simp add: sgn_if split: if_splits)
    then have "format_size n = Inr (format_2f (Float m (e - 50)) @ '' PB'')"
      using f n m e fin by (intro format_size_large) simp_all
    moreover have "unit_index n = 5" using n by (simp add: unit_index_def)
    ultimately show ?thesis by (simp add: unit_names_def)
  next
    case False
    then have "unit_index n = 0" by (simp add: unit_index_def)
    moreover have "n < 1024" using False by simp
    ultimately show ?thesis
      by (simp add: format_size_def format_spec_2f_def f unit_names_def)
  qed
  then show ?thesis using f m e sg False by simp
qed

lemma format_size_overflow:
  assumes "\<not> float_range n"
  shows "format_size n = Inl OverflowError"
  using int_to_float_overflow [OF assms]
  by (simp add: format_size_def format_spec_2f_def divide_by_1024_def)

lemma round_half_even_of_int: "round_half_even (of_int k) = k"
  by (simp add: round_half_even_def)

lemma round_half_even_quotient:
  assumes "0 < d"
  shows "round_half_even (of_int n / of_int d) = round_half_even_div n d"
proof -
  have fl: "\<lfloor>(of_int n / of_int d :: rat)\<rfloor> = n div d" by (simp add: floor_divide_of_int_eq)
  have n: "n = d * (n div d) + n mod d" by simp
  have "(of_int n :: rat) = of_int d * of_int (n div d) + of_int (n mod d)"
    by (metis n of_int_add of_int_mult)
  then have fr: "(of_int n / of_int d :: rat) - of_int (n div d) = of_int (n mod d) / of_int d"
    using assms by (simp add: field_simps)
  have lt: "(of_int (n mod d) / of_int d :: rat) < 1 / 2 \<longleftrightarrow> 2 * (n mod d) < d"
  proof -
    have "(of_int (n mod d) / of_int d :: rat) < 1 / 2 \<longleftrightarrow> (of_int (2 * (n mod d)) :: rat) < of_int d"
      using assms by (simp add: field_simps)
    then show ?thesis by (simp only: of_int_less_iff)
  qed
  have gt: "1 / 2 < (of_int (n mod d) / of_int d :: rat) \<longleftrightarrow> d < 2 * (n mod d)"
  proof -
    have "1 / 2 < (of_int (n mod d) / of_int d :: rat) \<longleftrightarrow> (of_int d :: rat) < of_int (2 * (n mod d))"
      using assms by (simp add: field_simps)
    then show ?thesis by (simp only: of_int_less_iff)
  qed
  have "round_half_even (of_int n / of_int d) =
          (if (of_int (n mod d) / of_int d :: rat) < 1 / 2 then n div d
           else if 1 / 2 < (of_int (n mod d) / of_int d :: rat) then n div d + 1
           else if even (n div d) then n div d else n div d + 1)"
    by (simp only: round_half_even_def Let_def fl fr)
  also have "\<dots> = round_half_even_div n d"
    by (simp only: lt gt round_half_even_div_def Let_def)
  finally show ?thesis .
qed

lemma hundredths_rounds: "hundredths m e = round_half_even (\<bar>of_int m * 2 powi e\<bar> * 100)"
proof (cases "0 \<le> e")
  case True
  have "\<bar>of_int m * 2 powi e\<bar> * (100::rat) = of_int (\<bar>m\<bar> * 100 * 2 ^ nat e)"
    using True by (simp add: abs_mult power_int_def)
  then show ?thesis using True by (simp only: round_half_even_of_int hundredths_def if_True)
next
  case False
  have "\<bar>of_int m * 2 powi e\<bar> * (100::rat) = of_int (\<bar>m\<bar> * 100) / of_int (2 ^ nat (- e))"
    using False by (simp add: abs_mult power_int_def field_simps)
  then show ?thesis using False round_half_even_quotient [of "2 ^ nat (- e)" "\<bar>m\<bar> * 100"]
    by (simp add: hundredths_def)
qed

lemma format_2f_two_decimals: "format_2f (Float m e) = two_decimals (float_value (Float m e))"
proof -
  have "(0::rat) < 2 powi e" by (simp add: zero_less_power_int)
  then have "((of_int m :: rat) * 2 powi e < 0 * 2 powi e) = ((of_int m :: rat) < 0)"
    by (rule mult_less_cancel_right_pos)
  then have sign: "(of_int m * 2 powi e < (0::rat)) = (m < 0)"
    by (simp only: mult_zero_left of_int_less_0_iff)
  show ?thesis by (simp add: two_decimals_def sign hundredths_rounds)
qed

lemma float_value_divided:
  "float_value (Float m (e - 10 * int k)) = float_value (Float m e) / 1024 ^ k"
proof -
  have "(2::rat) powi (e - 10 * int k) = 2 powi e / 2 powi (10 * int k)"
    by (simp add: power_int_diff)
  also have "(2::rat) powi (10 * int k) = 1024 ^ k"
    by (simp add: power_int_def nat_mult_distrib power_mult)
  finally show ?thesis by simp
qed


lemma divide_until_small_of_int:
  "divide_until_small 5 (of_int n) = (of_int n / 1024 ^ unit_index n, unit_index n)"
  by (simp add: numeral_eq_Suc unit_index_def)

lemma divide_until_small_big:
  assumes "2 ^ 53 \<le> x"
  shows "divide_until_small 5 x = (x / 1024 ^ 5, 5)"
  using assms by (simp add: numeral_eq_Suc)

lemma format_size_as_described:
  assumes "float_range n"
  shows "\<exists>f. int_to_float n = Inr f \<and> format_size n = Inr (format_described (float_value f))
           \<and> (\<bar>n\<bar> < 2 ^ 53 \<longrightarrow> float_value f = of_int n)"
proof -
  from format_size_closed [OF assms] obtain m e where
    f: "int_to_float n = Inr (Float m e)"
    and c: "format_size n =
              Inr (format_2f (Float m (e - 10 * int (unit_index n))) @ '' ''
                   @ unit_names ! unit_index n)"
    and small: "\<bar>n\<bar> < 2 ^ 53 \<longrightarrow> m = n \<and> e = 0"
    and large: "2 ^ 53 \<le> \<bar>n\<bar> \<longrightarrow> 2 ^ 52 \<le> \<bar>m\<bar> \<and> \<bar>m\<bar> < 2 ^ 53 \<and> 1 \<le> e \<and> sgn m = sgn n"
    by blast
  define x where "x = float_value (Float m e)"
  have steps: "divide_until_small 5 x = (x / 1024 ^ unit_index n, unit_index n)"
  proof (cases "\<bar>n\<bar> < 2 ^ 53")
    case True
    then have "x = of_int n" using small by (simp add: x_def)
    then show ?thesis by (simp only: divide_until_small_of_int)
  next
    case False
    then have big: "2 ^ 52 \<le> \<bar>m\<bar>" "1 \<le> e" "sgn m = sgn n" using large by simp_all
    show ?thesis
    proof (cases "0 \<le> n")
      case True
      then have n: "2 ^ 53 \<le> n" using False by simp
      then have "0 < n" by simp
      then have m: "2 ^ 52 \<le> m" using big by (simp add: sgn_if split: if_splits)
      have "(2::rat) ^ 1 \<le> 2 ^ nat e" using big(2) by (intro power_increasing) simp_all
      then have "(2::rat) \<le> 2 powi e" using big(2) by (simp add: power_int_def)
      moreover have "(2::rat) ^ 52 \<le> of_int m" using m by (simp flip: of_int_le_iff)
      ultimately have "(2::rat) ^ 52 * 2 \<le> of_int m * 2 powi e" by (intro mult_mono) simp_all
      then have "2 ^ 53 \<le> x" by (simp add: x_def)
      moreover have "unit_index n = 5" using n by (simp add: unit_index_def)
      ultimately show ?thesis by (simp only: divide_until_small_big)
    next
      case False
      then have "m < 0" using big(3) by (simp add: sgn_if split: if_splits)
      moreover have "(0::rat) < 2 powi e" by (simp add: zero_less_power_int)
      ultimately have "of_int m * 2 powi e < (0::rat)" by (simp add: mult_neg_pos)
      then have "x < 1024" by (simp add: x_def)
      moreover have "unit_index n = 0" using False by (simp add: unit_index_def)
      ultimately show ?thesis by (simp add: numeral_eq_Suc)
    qed
  qed
  have "format_described x =
          format_2f (Float m (e - 10 * int (unit_index n))) @ '' '' @ unit_names ! unit_index n"
    by (simp only: format_described_def steps prod.case)
      (simp only: format_2f_two_decimals float_value_divided x_def)
  then show ?thesis using f c small by (auto simp: x_def)
qed


lemma round_half_even_le:
  assumes "x \<le> of_int k"
  shows "round_half_even x \<le> k"
proof -
  have fl: "\<lfloor>x\<rfloor> \<le> k" using assms by (simp add: floor_le_iff)
  show ?thesis
  proof (cases "\<lfloor>x\<rfloor> = k")
    case True
    have "of_int \<lfloor>x\<rfloor> \<le> x" by simp
    then have "x = of_int \<lfloor>x\<rfloor>" using assms True by simp
    then have "x - of_int \<lfloor>x\<rfloor> = 0" by simp
    then show ?thesis using True by (simp add: round_half_even_def Let_def)
  next
    case False
    then have "\<lfloor>x\<rfloor> + 1 \<le> k" using fl by simp
    then show ?thesis by (simp add: round_half_even_def Let_def)
  qed
qed

lemma round_half_even_nonneg: "0 \<le> x \<Longrightarrow> 0 \<le> round_half_even x"
  by (simp add: round_half_even_def Let_def)

lemma format_size_returns:
  assumes "float_range n"
  shows "\<exists>s. format_size n = Inr s"
  using format_size_closed [OF assms] by blast

text \<open>
  C9. \<^verbatim>\<open>format_size\<close> is a function of its argument. On an integer that converts to a
  float it returns what the description gives on the float of the argument: the value
  divided by 1024 until it is below 1024 or the five smaller units are used up, rounded
  to two decimals, a space and the unit; below \<open>2 ^ 53\<close> the float of the argument is
  the argument. The four examples of the specification hold.
\<close>

theorem format_size_divides_and_rounds:
  "(float_range b \<longrightarrow>
      (\<exists>f. int_to_float b = Inr f \<and> format_size b = Inr (format_described (float_value f))
           \<and> (\<bar>b\<bar> < 2 ^ 53 \<longrightarrow> float_value f = of_int b)))
   \<and> format_size 512 = Inr ''512.00 B''
   \<and> format_size 1536 = Inr ''1.50 KB''
   \<and> format_size 1572864 = Inr ''1.50 MB''
   \<and> format_size 1610612736 = Inr ''1.50 GB''"
proof -
  have ev: "format_size 512 = Inr ''512.00 B''" "format_size 1536 = Inr ''1.50 KB''"
    "format_size 1572864 = Inr ''1.50 MB''" "format_size 1610612736 = Inr ''1.50 GB''"
    by (simp_all add: float_eval)
  show ?thesis using format_size_as_described [of b] ev by blast
qed

theorem format_size_divides_and_rounds_witness:
  "float_range 1536 \<and> format_size 1536 = Inr (format_described 1536)
   \<and> format_described 1536 = ''1.50 KB''"
proof -
  have r: "float_range 1536" by (simp add: float_range_def)
  from format_size_divides_and_rounds [of 1536] r
  obtain f where "int_to_float 1536 = Inr f"
    "format_size 1536 = Inr (format_described (float_value f))" "float_value f = 1536"
    by auto
  then have "format_size 1536 = Inr (format_described 1536)" by simp
  moreover from format_size_divides_and_rounds [of 1536] have "format_size 1536 = Inr ''1.50 KB''"
    by blast
  ultimately show ?thesis using r by simp
qed

text \<open>
  C2 (as stated, refuted). For 1048575 bytes the value 1023.999 is below 1024, so the
  unit is KB, and its rounding to two decimals is displayed: 1024.00.
\<close>

theorem format_size_displays_1024:
  "format_size 1048575 = Inr ''1024.00 KB''"
  by (simp add: float_eval)

text \<open>
  C2 (amended). For every byte count that is not negative and converts to a float,
  \<^verbatim>\<open>format_size\<close> returns a number with two decimals, a space and a unit among B, KB, MB,
  GB, TB and PB. Unless the unit is PB, the magnitude before rounding is strictly below
  1024, the number displayed is that magnitude rounded to two decimals, and it is at
  most 1024.00.
\<close>

theorem format_size_shape:
  assumes "0 \<le> b" and "float_range b"
  shows "\<exists>c u. format_size b = Inr (str_hundredths c @ '' '' @ u)
           \<and> u \<in> set unit_names \<and> 0 \<le> c
           \<and> (u \<noteq> ''PB'' \<longrightarrow>
                 (of_int b / 1024 ^ unit_index b :: rat) < 1024
                 \<and> c = round_half_even (of_int b / 1024 ^ unit_index b * 100)
                 \<and> c \<le> 102400)"
proof -
  define k where "k = unit_index b"
  from format_size_closed [OF assms(2)] obtain m e where
    f: "int_to_float b = Inr (Float m e)"
    and c: "format_size b = Inr (format_2f (Float m (e - 10 * int k)) @ '' '' @ unit_names ! k)"
    and small: "\<bar>b\<bar> < 2 ^ 53 \<longrightarrow> m = b \<and> e = 0"
    and large: "2 ^ 53 \<le> \<bar>b\<bar> \<longrightarrow> 2 ^ 52 \<le> \<bar>m\<bar> \<and> \<bar>m\<bar> < 2 ^ 53 \<and> 1 \<le> e \<and> sgn m = sgn b"
    unfolding k_def by blast
  have m0: "0 \<le> m"
  proof (cases "\<bar>b\<bar> < 2 ^ 53")
    case True
    then show ?thesis using small assms(1) by simp
  next
    case False
    then have "sgn m = sgn b" "0 < b" using large assms(1) by auto
    then show ?thesis by (simp add: sgn_if split: if_splits)
  qed
  define c' where "c' = hundredths m (e - 10 * int k)"
  have k5: "k \<le> 5" by (simp add: k_def unit_index_def)
  have "k < length unit_names" using k5 by (simp add: unit_names_def)
  then have u: "unit_names ! k \<in> set unit_names" by (rule nth_mem)
  have shape: "format_size b = Inr (str_hundredths c' @ '' '' @ unit_names ! k)"
    using c m0 by (simp add: c'_def)
  have c0: "0 \<le> c'"
    unfolding c'_def hundredths_rounds by (intro round_half_even_nonneg) simp
  have below: "(of_int b / 1024 ^ k :: rat) < 1024
      \<and> c' = round_half_even (of_int b / 1024 ^ k * 100) \<and> c' \<le> 102400"
    if "unit_names ! k \<noteq> ''PB''"
  proof -
    have k4: "k < 5" using that k5 by (cases "k = 5") (simp_all add: unit_names_def)
    then have b5: "b < 1024 ^ 5" unfolding k_def unit_index_def by (simp split: if_splits)
    then have "\<bar>b\<bar> < 2 ^ 53" using assms(1) by simp
    then have me: "m = b" "e = 0" using small by simp_all
    have x: "(of_int b / 1024 ^ k :: rat) < 1024"
    proof -
      have "b < 1024 * 1024 ^ k" using k4 b5 unfolding k_def unit_index_def
        by (simp split: if_splits)
      then have "(of_int b :: rat) < of_int (1024 * 1024 ^ k)" by (simp only: of_int_less_iff)
      then show ?thesis by (simp add: field_simps)
    qed
    have v: "\<bar>of_int b * 2 powi (0 - 10 * int k)\<bar> = (of_int b / 1024 ^ k :: rat)"
      using float_value_divided [of b 0 k] assms(1) by simp
    have r: "c' = round_half_even (of_int b / 1024 ^ k * 100)"
      unfolding c'_def hundredths_rounds me v ..
    have "(of_int b / 1024 ^ k :: rat) * 100 \<le> 1024 * 100"
      using x by (intro mult_right_mono) simp_all
    then have "(of_int b / 1024 ^ k * 100 :: rat) \<le> of_int 102400" by simp
    then have "c' \<le> 102400" unfolding r by (rule round_half_even_le)
    then show ?thesis using x r by simp
  qed
  show ?thesis using shape u c0 below unfolding k_def by blast
qed

theorem format_size_shape_witness:
  "(0::int) \<le> 1048575 \<and> float_range 1048575
   \<and> format_size 1048575 = Inr (str_hundredths 102400 @ '' '' @ ''KB'')
   \<and> (1048575 / 1024 ^ 1 :: rat) < 1024"
proof -
  have h: "(0::int) \<le> 1048575" "float_range 1048575" by (simp_all add: float_range_def)
  have e: "format_size 1048575 = Inr ''1024.00 KB''"
    by (simp add: float_eval)
  from format_size_shape [OF h] obtain c u where
    "format_size 1048575 = Inr (str_hundredths c @ '' '' @ u)" by blast
  then show ?thesis using h e by (simp add: str_hundredths_def digit_char_def)
qed

subsection \<open>The alert history\<close>

lemma add_folder_alerts:
  "alerts_triggered (snd (add_folder_to_monitor fs path limit_mb m)) = alerts_triggered m"
  by (simp add: add_folder_to_monitor_def Let_def)

lemma remove_folder_alerts:
  "alerts_triggered (snd (remove_folder_from_monitor path m)) = alerts_triggered m"
  by (simp add: remove_folder_from_monitor_def)

lemma trigger_alert_appends:
  "alerts_triggered (trigger_alert clock v m) = alerts_triggered m @ [alert_of clock v]"
  "monitoring_config (trigger_alert clock v m) = monitoring_config m"
  by (simp_all add: trigger_alert_def alert_of_def)

lemma trigger_alerts_appends:
  "alerts_triggered (trigger_alerts clock i vs m) =
     alerts_triggered m @ map (\<lambda>(j, v). alert_of (clock j) v) (enumerate i vs)"
  "monitoring_config (trigger_alerts clock i vs m) = monitoring_config m"
  by (induction vs arbitrary: i m) (simp_all add: trigger_alert_appends)

lemma monitor_once_alerts:
  "\<exists>new. alerts_triggered (snd (monitor_once fs clock m)) = alerts_triggered m @ new"
  by (simp add: monitor_once_def trigger_alerts_appends split: sum.splits)

lemma call_alerts:
  "prefix (alerts_triggered m) (alerts_triggered (snd (call fs operation m)))"
proof (cases operation)
  case (Register path limit_mb)
  then show ?thesis using add_folder_alerts [of fs path limit_mb m]
    by (auto split: prod.splits)
next
  case (Unregister path)
  then show ?thesis using remove_folder_alerts [of path m] by (auto split: prod.splits)
next
  case (CheckOnce clock)
  then show ?thesis using monitor_once_alerts [of fs clock m]
    by (auto simp: prefix_def split: prod.splits sum.splits)
next
  case (RaiseAlert clock v)
  then show ?thesis by (simp add: trigger_alert_appends)
qed (simp_all split: sum.splits)

text \<open>
  C10. The alert history only grows at its end: after any call of \<^verbatim>\<open>add_folder_to_monitor\<close>,
  \<^verbatim>\<open>remove_folder_from_monitor\<close>, \<^verbatim>\<open>get_folder_size\<close>, \<^verbatim>\<open>check_folder_limits\<close>,
  \<^verbatim>\<open>monitor_once\<close>, \<^verbatim>\<open>trigger_alert\<close> or \<^verbatim>\<open>get_monitoring_status\<close>, whether it returns or
  raises, the history before the call is a prefix of the history after it; so it is
  after any run of such calls, the length never decreases, and a new monitor starts with
  the empty history.
\<close>

theorem alert_history_is_append_only:
  "prefix (alerts_triggered m) (alerts_triggered (snd (call fs operation m)))
   \<and> prefix (alerts_triggered m) (alerts_triggered (run calls m))
   \<and> length (alerts_triggered m) \<le> length (alerts_triggered (run calls m))
   \<and> alerts_triggered (init config) = []"
proof -
  have run: "prefix (alerts_triggered m) (alerts_triggered (run calls m))"
  proof (induction calls arbitrary: m)
    case Nil
    show ?case by simp
  next
    case (Cons c calls)
    obtain fs' operation' where c: "c = (fs', operation')" by (cases c)
    have "prefix (alerts_triggered m) (alerts_triggered (snd (call fs' operation' m)))"
      by (rule call_alerts)
    also have "prefix \<dots> (alerts_triggered (run calls (snd (call fs' operation' m))))"
      by (rule Cons.IH)
    finally show ?case by (simp add: c)
  qed
  then have "length (alerts_triggered m) \<le> length (alerts_triggered (run calls m))"
    by (rule prefix_length_le)
  then show ?thesis using run call_alerts [of m fs operation] by (simp add: init_def)
qed

subsection \<open>Evaluation of the limits and the single check\<close>

lemma format_size_formatted:
  assumes "float_range n"
  shows "format_size n = Inr (formatted n)"
  using format_size_returns [OF assms] by (auto simp: formatted_def)

lemma make_violation_in_range:
  assumes "float_range n" and "float_range limit" and "float_range (n - limit)"
  shows "make_violation path n limit = Inr (violation_of path n limit)"
  using assms by (simp add: make_violation_def violation_of_def format_size_formatted)

lemma check_entry_cases:
  "check_entry fs path limit =
     (case get_folder_size fs path of
        Inl e \<Rightarrow> Inl e
      | Inr n \<Rightarrow> if limit < n then map_sum id Some (make_violation path n limit) else Inr None)"
  by (simp add: check_entry_def split: sum.splits)

lemma get_folder_size_error:
  "get_folder_size fs path = Inl e \<Longrightarrow> \<exists>msg. e = OSError msg"
  by (auto simp: get_folder_size_def split: if_splits)

lemma check_entries_in_range:
  assumes "violations_in_float_range fs config"
  shows "check_entries fs config acc = Inr (acc @ expected_violations fs config)"
  using assms
proof (induction config arbitrary: acc)
  case Nil
  show ?case by (simp add: expected_violations_def)
next
  case (Cons entry config)
  obtain path limit where entry: "entry = (path, limit)" by (cases entry)
  have rest: "violations_in_float_range fs config"
    using Cons.prems by (simp add: violations_in_float_range_def)
  note IH = Cons.IH [OF rest]
  have ev: "expected_violations fs ((path, limit) # config) =
              [violation_of path n limit. n \<leftarrow> measured fs path, limit < n]
              @ expected_violations fs config"
    by (simp add: expected_violations_def)
  show ?case
  proof (cases "get_folder_size fs path")
    case (Inl e)
    then obtain msg where "e = OSError msg" using get_folder_size_error by blast
    then show ?thesis using Inl IH by (simp add: entry check_entry_def ev measured_def)
  next
    case (Inr n)
    show ?thesis
    proof (cases "limit < n")
      case True
      have "float_range n \<and> float_range limit \<and> float_range (n - limit)"
        using Cons.prems True Inr by (simp add: violations_in_float_range_def entry measured_def)
      then have "make_violation path n limit = Inr (violation_of path n limit)"
        by (simp add: make_violation_in_range)
      then show ?thesis using Inr True IH
        by (simp add: entry check_entry_def ev measured_def)
    next
      case False
      then show ?thesis using Inr IH by (simp add: entry check_entry_def ev measured_def)
    qed
  qed
qed


lemma expected_violations_entries:
  "map (\<lambda>v. (folder_path v, size_limit v)) (expected_violations fs config) =
     filter (\<lambda>(path, limit). \<exists>n. get_folder_size fs path = Inr n \<and> limit < n) config"
proof (induction config)
  case Nil
  show ?case by (simp add: expected_violations_def)
next
  case (Cons entry config)
  obtain path limit where entry: "entry = (path, limit)" by (cases entry)
  have ev: "expected_violations fs ((path, limit) # config) =
              [violation_of path n limit. n \<leftarrow> measured fs path, limit < n]
              @ expected_violations fs config"
    by (simp add: expected_violations_def)
  show ?case using Cons.IH
    by (cases "get_folder_size fs path") (simp_all add: entry ev measured_def violation_of_def)
qed

lemma expected_violations_fields:
  assumes "v \<in> set (expected_violations fs config)"
  shows "\<exists>path limit n. (path, limit) \<in> set config \<and> get_folder_size fs path = Inr n
           \<and> limit < n \<and> v = violation_of path n limit"
proof -
  from assms obtain path limit where e: "(path, limit) \<in> set config"
    and v: "v \<in> set [violation_of path n limit. n \<leftarrow> measured fs path, limit < n]"
    by (auto simp: expected_violations_def)
  from v obtain n where n: "n \<in> set (measured fs path)" "limit < n"
    "v = violation_of path n limit"
    by (auto split: if_splits)
  from n(1) have "get_folder_size fs path = Inr n"
    by (cases "get_folder_size fs path") (simp_all add: measured_def)
  then show ?thesis using e n by blast
qed

lemma example_sizes:
  "get_folder_size example_fs ''/missing'' = Inl (OSError (not_found_message ''/missing''))"
  "get_folder_size example_fs ''/big'' = Inr 2097152"
  "get_folder_size example_fs ''/data'' = Inr 3072"
  by (simp_all add: get_folder_size_def os_path_exists_def os_path_isdir_def os_walk_from_def
      example_fs_def)

lemma example_formats:
  "format_size 2097152 = Inr ''2.00 MB''" "format_size 1048576 = Inr ''1.00 MB''"
  "format_size 3072 = Inr ''3.00 KB''" "format_size 10485760 = Inr ''10.00 MB''"
  by (simp_all add: float_eval)

lemma example_in_range: "violations_in_float_range example_fs (monitoring_config example_monitor)"
  by (simp add: violations_in_float_range_def example_monitor_def measured_def example_sizes
      float_range_def)

lemma example_expected:
  "expected_violations example_fs (monitoring_config example_monitor) = [example_violation]"
  by (simp add: expected_violations_def example_monitor_def measured_def example_sizes
      violation_of_def formatted_def example_formats example_violation_def)

text \<open>
  C6. When the sizes that the pass formats convert to floats, \<^verbatim>\<open>check_folder_limits\<close>
  returns, in the order of the watch-list, exactly one violation for each entry whose
  folder can be measured and is strictly larger than its limit, and nothing for an entry
  at or under its limit or for one whose measurement raises; the entries after such a
  one are evaluated all the same. Each violation holds the measured size, the limit,
  their difference as excess and the three formatted by \<^verbatim>\<open>format_size\<close>. The call leaves
  the monitor, and so the alert history, as it was.
\<close>

theorem evaluate_returns_each_violation:
  assumes "violations_in_float_range fs (monitoring_config m)"
  shows "check_folder_limits fs m = Inr (expected_violations fs (monitoring_config m))
         \<and> call fs Evaluate m =
             (ReturnsViolations (expected_violations fs (monitoring_config m)), m)
         \<and> map (\<lambda>v. (folder_path v, size_limit v)) (expected_violations fs (monitoring_config m)) =
             filter (\<lambda>(path, limit). \<exists>n. get_folder_size fs path = Inr n \<and> limit < n)
               (monitoring_config m)
         \<and> (\<forall>v \<in> set (expected_violations fs (monitoring_config m)).
               get_folder_size fs (folder_path v) = Inr (current_size v)
               \<and> size_limit v < current_size v
               \<and> excess_size v = current_size v - size_limit v
               \<and> format_size (current_size v) = Inr (current_size_formatted v)
               \<and> format_size (size_limit v) = Inr (size_limit_formatted v)
               \<and> format_size (excess_size v) = Inr (excess_size_formatted v))"
proof -
  have c: "check_folder_limits fs m = Inr (expected_violations fs (monitoring_config m))"
    using check_entries_in_range [OF assms, of "[]"] by (simp add: check_folder_limits_def)
  have fields: "get_folder_size fs (folder_path v) = Inr (current_size v)
               \<and> size_limit v < current_size v
               \<and> excess_size v = current_size v - size_limit v
               \<and> format_size (current_size v) = Inr (current_size_formatted v)
               \<and> format_size (size_limit v) = Inr (size_limit_formatted v)
               \<and> format_size (excess_size v) = Inr (excess_size_formatted v)"
    if v: "v \<in> set (expected_violations fs (monitoring_config m))" for v
  proof -
    from expected_violations_fields [OF v] obtain path limit n where
      e: "(path, limit) \<in> set (monitoring_config m)" "get_folder_size fs path = Inr n"
        "limit < n" "v = violation_of path n limit"
      by blast
    have "float_range n \<and> float_range limit \<and> float_range (n - limit)"
      using assms e by (auto simp: violations_in_float_range_def measured_def)
    then show ?thesis using e by (simp add: violation_of_def format_size_formatted)
  qed
  have r: "call fs Evaluate m =
             (ReturnsViolations (expected_violations fs (monitoring_config m)), m)"
    using c by simp
  have all: "\<forall>v \<in> set (expected_violations fs (monitoring_config m)).
               get_folder_size fs (folder_path v) = Inr (current_size v)
               \<and> size_limit v < current_size v
               \<and> excess_size v = current_size v - size_limit v
               \<and> format_size (current_size v) = Inr (current_size_formatted v)
               \<and> format_size (size_limit v) = Inr (size_limit_formatted v)
               \<and> format_size (excess_size v) = Inr (excess_size_formatted v)"
    using fields by blast
  show ?thesis
    by (intro conjI) (fact c, fact r, fact expected_violations_entries, fact all)
qed

theorem evaluate_returns_each_violation_witness:
  "violations_in_float_range example_fs (monitoring_config example_monitor)
   \<and> check_folder_limits example_fs example_monitor = Inr [example_violation]
   \<and> call example_fs Evaluate example_monitor = (ReturnsViolations [example_violation], example_monitor)"
  using evaluate_returns_each_violation [OF example_in_range] example_in_range
  by (simp add: example_expected)

lemma monitor_once_cases:
  "monitor_once fs clock m =
     (if monitoring_config m = [] then (Inr False, m)
      else (case check_folder_limits fs m of
              Inl e \<Rightarrow> (Inl e, m)
            | Inr vs \<Rightarrow> (Inr (vs \<noteq> []), trigger_alerts clock 0 vs m)))"
  by (simp add: monitor_once_def split: sum.splits)

lemma map_violation_alerts:
  "map (violation \<circ> (\<lambda>(j, v). alert_of (clock j) v)) (enumerate i vs) = vs"
  by (induction vs arbitrary: i) (simp_all add: alert_of_def)

lemma check_raises_on_huge_limit:
  "check_folder_limits example_fs
     \<lparr>monitoring_config = [(''/big'', - (2 ^ 1024))], alerts_triggered = []\<rparr>
   = Inl OverflowError"
proof -
  have "\<not> float_range (- (2 ^ 1024))" by (simp add: float_range_def)
  then have "format_size (- (2 ^ 1024)) = Inl OverflowError" by (rule format_size_overflow)
  then show ?thesis
    by (simp add: check_folder_limits_def check_entry_def make_violation_def example_sizes
        example_formats)
qed

text \<open>
  C7. On an empty watch-list \<^verbatim>\<open>monitor_once\<close> returns \<open>False\<close> and leaves the monitor as it
  was. On a watch-list that is not empty, when \<^verbatim>\<open>check_folder_limits\<close> returns the
  violations \<open>vs\<close>, it returns \<open>True\<close> exactly when \<open>vs\<close> is not empty, it appends to the
  history one alert for each violation of \<open>vs\<close>, in the order of \<open>vs\<close>, and nothing else
  changes; with no violation the monitor is as it was. When \<^verbatim>\<open>check_folder_limits\<close> raises,
  so does \<^verbatim>\<open>monitor_once\<close>, with the monitor as it was.
\<close>

theorem check_once_alerts_each_violation:
  "(monitoring_config m = [] \<longrightarrow> monitor_once fs clock m = (Inr False, m))
   \<and> (monitoring_config m \<noteq> [] \<and> check_folder_limits fs m = Inr vs \<longrightarrow>
        fst (monitor_once fs clock m) = Inr (vs \<noteq> [])
        \<and> monitoring_config (snd (monitor_once fs clock m)) = monitoring_config m
        \<and> alerts_triggered (snd (monitor_once fs clock m)) =
            alerts_triggered m @ map (\<lambda>(i, v). alert_of (clock i) v) (enumerate 0 vs)
        \<and> length (alerts_triggered (snd (monitor_once fs clock m))) =
            length (alerts_triggered m) + length vs
        \<and> map violation (drop (length (alerts_triggered m))
                               (alerts_triggered (snd (monitor_once fs clock m)))) = vs
        \<and> (vs = [] \<longrightarrow> snd (monitor_once fs clock m) = m))
   \<and> (monitoring_config m \<noteq> [] \<and> check_folder_limits fs m = Inl e \<longrightarrow>
        monitor_once fs clock m = (Inl e, m))"
  by (simp add: monitor_once_cases trigger_alerts_appends map_violation_alerts)

theorem check_once_alerts_each_violation_witness:
  "monitoring_config example_monitor \<noteq> []
   \<and> check_folder_limits example_fs example_monitor = Inr [example_violation]
   \<and> fst (monitor_once example_fs example_clock example_monitor) = Inr True
   \<and> alerts_triggered (snd (monitor_once example_fs example_clock example_monitor)) =
       [alert_of (example_clock 0) example_violation]
   \<and> monitor_once example_fs example_clock (init None) = (Inr False, init None)
   \<and> monitor_once example_fs example_clock
        \<lparr>monitoring_config = [(''/big'', - (2 ^ 1024))], alerts_triggered = []\<rparr> =
       (Inl OverflowError,
        \<lparr>monitoring_config = [(''/big'', - (2 ^ 1024))], alerts_triggered = []\<rparr>)"
proof -
  have c: "check_folder_limits example_fs example_monitor = Inr [example_violation]"
    using check_entries_in_range [OF example_in_range, of "[]"]
    by (simp add: check_folder_limits_def example_expected)
  have n: "monitoring_config example_monitor \<noteq> []" by (simp add: example_monitor_def)
  have a: "alerts_triggered example_monitor = []" by (simp add: example_monitor_def)
  have i: "monitoring_config (init None) = []" by (simp add: init_def)
  from check_once_alerts_each_violation
    [of example_monitor example_fs example_clock "[example_violation]"] n c a
  have "fst (monitor_once example_fs example_clock example_monitor) = Inr True"
    and "alerts_triggered (snd (monitor_once example_fs example_clock example_monitor)) =
       [alert_of (example_clock 0) example_violation]"
    by (simp_all add: enumerate_eq_zip)
  moreover from check_once_alerts_each_violation [of "init None" example_fs example_clock "[]"] i
  have "monitor_once example_fs example_clock (init None) = (Inr False, init None)" by simp
  moreover from check_once_alerts_each_violation
    [of "\<lparr>monitoring_config = [(''/big'', - (2 ^ 1024))], alerts_triggered = []\<rparr>"
        example_fs example_clock _ OverflowError]
    check_raises_on_huge_limit
  have "monitor_once example_fs example_clock
        \<lparr>monitoring_config = [(''/big'', - (2 ^ 1024))], alerts_triggered = []\<rparr> =
       (Inl OverflowError,
        \<lparr>monitoring_config = [(''/big'', - (2 ^ 1024))], alerts_triggered = []\<rparr>)"
    by simp
  ultimately show ?thesis using n c by simp
qed

subsection \<open>The status\<close>

lemma make_float_bounded:
  assumes "0 \<le> m" and "m \<le> 2 ^ 53" and "e < 0 \<or> m * 2 ^ nat e < 2 ^ 1024"
  shows "\<exists>m' e'. make_float m e = Float m' e'"
proof (cases "53 < bitlen \<bar>m\<bar>")
  case False
  then have "make_float m e = Float m e"
    using assms by (intro make_float_finite) simp_all
  then show ?thesis by blast
next
  case True
  then have "\<not> \<bar>m\<bar> < 2 ^ 53" using bitlen_le_53 [of m] by simp
  then have "\<not> m < 2 ^ 53" using assms(1) by simp
  then have m: "m = 2 ^ 53" using assms(2) by simp
  have "\<not> (0 \<le> e + 1 \<and> 2 ^ 1024 \<le> \<bar>m div 2\<bar> * 2 ^ nat (e + 1))"
  proof (cases "e < 0")
    case True
    then have "e + 1 \<le> 0" by simp
    then have "nat (e + 1) = 0" by simp
    then show ?thesis by (simp add: m)
  next
    case False
    then have "m * 2 ^ nat e < 2 ^ 1024" using assms(3) by simp
    moreover have "nat (e + 1) = Suc (nat e)" using False by simp
    ultimately show ?thesis by (simp add: m)
  qed
  moreover have "0 \<le> m div 2" using assms(1) by simp
  ultimately have "make_float m e = Float (m div 2) (e + 1)"
    using True by (auto simp: make_float_def)
  then show ?thesis by blast
qed

lemma bitlen_pos: "0 < b \<Longrightarrow> 1 \<le> bitlen b"
  using bitlen_ge_iff_power [of 1 b] by simp

lemma int_truediv_finite:
  assumes a: "0 \<le> a" and b: "0 < b" and range: "float_range a"
  shows "\<exists>m e. int_truediv a b = Inr (Float m e)"
proof (cases "a = 0")
  case True
  then show ?thesis using b by (simp add: int_truediv_def)
next
  case False
  then have apos: "0 < a" using a by simp
  define e where "e = floor_log2_quotient a b"
  define p where "p = max (e - 52) (- 1074)"
  define m where "m = (if 0 \<le> p then round_half_even_div a (b * 2 ^ nat p)
                       else round_half_even_div (a * 2 ^ nat (- p)) b)"
  have td: "int_truediv a b =
              (case make_float m p of Float m' e' \<Rightarrow> Inr (Float m' e')
               | Infinity \<Rightarrow> Inl OverflowError | NegInfinity \<Rightarrow> Inl OverflowError)"
    using apos b by (simp add: int_truediv_def Let_def e_def p_def m_def)
  have a_lt: "a < 2 ^ 1024 - 2 ^ 970" using range a by (simp add: float_range_def)
  have la: "bitlen a \<le> 1024" using a_lt by (simp add: bitlen_le_iff_power)
  have lb: "1 \<le> bitlen b" using b by (rule bitlen_pos)
  define k where "k = bitlen a - bitlen b"
  have e_le: "e \<le> k" by (simp add: e_def floor_log2_quotient_def k_def Let_def)
  have p971: "p \<le> 971" using e_le la lb by (simp add: p_def k_def)
  have m0: "0 \<le> m"
  proof -
    have "0 \<le> round_half_even_div x d" if "0 \<le> x" "0 < d" for x d :: int
      using rhe_ge [of d 0 x] that by simp
    then show ?thesis using a b by (simp add: m_def)
  qed
  have fin: "\<exists>m' e'. make_float m p = Float m' e'"
  proof (cases "0 \<le> p")
    case True
    then have e52: "52 \<le> e" and pe: "p = e - 52" by (simp_all add: p_def max_def split: if_splits)
    then have k0: "0 \<le> k" using e_le by simp
    have upper: "a < b * 2 ^ nat (e + 1)"
    proof (cases "b * 2 ^ nat k \<le> a")
      case True
      then have ek: "e = k" using k0 by (simp add: e_def floor_log2_quotient_def k_def Let_def)
      have "a < 2 ^ nat (bitlen a)" using bitlen_bounds [OF apos] by simp
      also have "nat (bitlen a) = nat (bitlen b - 1) + nat (k + 1)"
        using lb k0 by (simp add: k_def nat_add_distrib [symmetric])
      also have "(2::int) ^ (nat (bitlen b - 1) + nat (k + 1)) = 2 ^ nat (bitlen b - 1) * 2 ^ nat (k + 1)"
        by (simp add: power_add)
      also have "\<dots> \<le> b * 2 ^ nat (k + 1)"
        using bitlen_bounds [OF b] by (intro mult_right_mono) simp_all
      finally show ?thesis by (simp add: ek)
    next
      case False
      then have ek: "e = k - 1" using k0 by (simp add: e_def floor_log2_quotient_def k_def Let_def)
      show ?thesis using False by (simp add: ek)
    qed
    define d where "d = b * 2 ^ nat p"
    have dpos: "0 < d" using b by (simp add: d_def)
    have "nat (e + 1) = nat p + 53" using pe True by simp
    then have "b * 2 ^ nat (e + 1) = 2 ^ 53 * d" by (simp add: d_def power_add)
    then have a_d: "a < 2 ^ 53 * d" using upper by simp
    have md: "m = round_half_even_div a d" using True by (simp add: m_def d_def)
    have m_le: "m \<le> 2 ^ 53" unfolding md using dpos a_d by (intro rhe_le) simp_all
    have "m * 2 ^ nat p < 2 ^ 1024"
    proof (cases "p = 971")
      case True
      have "(2::int) ^ 971 * 1 \<le> 2 ^ 971 * b" using b by (intro mult_left_mono) simp_all
      then have "(2 ^ 54 - 1) * (2::int) ^ 971 \<le> (2 ^ 54 - 1) * d"
        by (simp add: d_def True mult.commute)
      moreover have "2 * a < (2 ^ 54 - 1) * 2 ^ 971" using a_lt by simp
      ultimately have "2 * a < (2 * (2 ^ 53 - 1) + 1) * d" by simp
      then have "m \<le> 2 ^ 53 - 1" unfolding md using dpos by (intro rhe_le)
      then have "m * 2 ^ nat p \<le> (2 ^ 53 - 1) * 2 ^ nat p" by (intro mult_right_mono) simp_all
      then show ?thesis by (simp add: True)
    next
      case False
      then have "p \<le> 970" using p971 by simp
      then have "(2::int) ^ nat p \<le> 2 ^ 970" using \<open>0 \<le> p\<close> by (intro power_increasing) simp_all
      then have "m * 2 ^ nat p \<le> 2 ^ 53 * 2 ^ 970" using m_le m0 by (intro mult_mono) simp_all
      then show ?thesis by simp
    qed
    then show ?thesis using m0 m_le by (intro make_float_bounded) simp_all
  next
    case False
    then have pneg: "p < 0" by simp
    show ?thesis
    proof (cases "53 < bitlen \<bar>m\<bar>")
      case False
      then have "make_float m p = Float m p" using pneg by (intro make_float_finite) simp_all
      then show ?thesis by blast
    next
      case True
      have "\<not> (0 \<le> p + 1 \<and> 2 ^ 1024 \<le> \<bar>m div 2\<bar> * 2 ^ nat (p + 1))"
      proof (cases "p = - 1")
        case True
        have "m \<le> a * 2 div b + 1" using rhe_upper [of "a * 2" b] by (simp add: m_def True)
        moreover have "a * 2 div b \<le> a * 2" using apos by (intro int_div_le_self) simp
        ultimately have "m div 2 \<le> a" by linarith
        moreover have "0 \<le> m div 2" using m0 by simp
        ultimately show ?thesis using a_lt by (simp add: True)
      next
        case False
        then show ?thesis using pneg by simp
      qed
      moreover have "0 \<le> m div 2" using m0 by simp
      ultimately have "make_float m p = Float (m div 2) (p + 1)"
        using True by (auto simp: make_float_def)
      then show ?thesis by blast
    qed
  qed
  then show ?thesis using td by auto
qed

lemma get_folder_size_nonneg: "get_folder_size fs path = Inr n \<Longrightarrow> 0 \<le> n"
  by (auto simp: get_folder_size_def split: if_splits)

lemma usage_percentage_of_in_range:
  assumes "0 \<le> n" and "float_range n"
  shows "usage_percentage_of n limit = Inr (expected_usage n limit)"
proof (cases "0 < limit")
  case True
  from int_truediv_finite [OF assms(1) True assms(2)]
  obtain k e where "int_truediv n limit = Inr (Float k e)" by blast
  then show ?thesis using True by (simp add: usage_percentage_of_def expected_usage_def)
next
  case False
  then show ?thesis by (simp add: usage_percentage_of_def expected_usage_def)
qed

lemma folder_status_measured:
  assumes "get_folder_size fs path = Inr n" and "float_range n" and "float_range limit"
  shows "folder_status fs path limit = Inr
           \<lparr>info_path = path, info_current_size = n,
            info_current_size_formatted = formatted n,
            info_size_limit = limit, info_size_limit_formatted = formatted limit,
            usage_percentage = expected_usage n limit,
            is_over_limit = (limit < n)\<rparr>"
  using assms get_folder_size_nonneg [OF assms(1)]
  by (simp add: folder_status_def format_size_formatted usage_percentage_of_in_range)

lemma folder_status_unmeasured:
  "get_folder_size fs path = Inl e \<Longrightarrow> folder_status fs path limit = Inl e"
  by (simp add: folder_status_def)

lemma status_entries_in_range:
  assumes "status_in_float_range fs config"
  shows "status_entries fs config acc =
           Inr (acc @ map (\<lambda>(path, limit). expected_entry fs path limit) config)"
  using assms
proof (induction config arbitrary: acc)
  case Nil
  then show ?case by simp
next
  case (Cons entry config)
  obtain path limit where entry: "entry = (path, limit)" by (cases entry)
  from Cons.prems have rest: "status_in_float_range fs config"
    by (simp add: status_in_float_range_def)
  show ?case
  proof (cases "get_folder_size fs path")
    case (Inl e)
    then obtain msg where e: "e = OSError msg" using get_folder_size_error by blast
    show ?thesis
      using Inl e Cons.IH [OF rest]
      by (simp add: entry folder_status_unmeasured expected_entry_def)
  next
    case (Inr n)
    with Cons.prems have "float_range n" and "float_range limit"
      by (simp_all add: status_in_float_range_def entry measured_def)
    from folder_status_measured [OF Inr this] show ?thesis
      using Inr Cons.IH [OF rest] by (simp add: entry expected_entry_def)
  qed
qed

lemma format_size_raises:
  assumes "format_size n = Inl e"
  shows "e = OverflowError \<and> \<not> float_range n"
proof (cases "float_range n")
  case True
  then show ?thesis using format_size_returns [of n] assms by auto
next
  case False
  then show ?thesis using format_size_overflow [of n] assms by simp
qed

lemma usage_percentage_of_raises:
  "usage_percentage_of n limit = Inl e \<Longrightarrow> e = OverflowError"
  by (auto simp: usage_percentage_of_def int_truediv_def Let_def
           split: if_splits sum.splits py_float.splits)

lemma folder_status_raises:
  assumes "folder_status fs path limit = Inl e"
  shows "(\<exists>msg. e = OSError msg \<and> get_folder_size fs path = Inl e) \<or> e = OverflowError"
  using assms get_folder_size_error [of fs path]
  by (auto simp: folder_status_def split: sum.splits
           dest: format_size_raises usage_percentage_of_raises)

lemma status_entries_raises:
  "status_entries fs config acc = Inl e \<Longrightarrow> e = OverflowError"
proof (induction config arbitrary: acc)
  case Nil
  then show ?case by simp
next
  case (Cons entry config)
  obtain path limit where entry: "entry = (path, limit)" by (cases entry)
  show ?case
  proof (cases "folder_status fs path limit")
    case (Inl e')
    then show ?thesis using Cons folder_status_raises [OF Inl]
      by (cases e') (auto simp: entry)
  next
    case (Inr info)
    then show ?thesis using Cons by (simp add: entry)
  qed
qed

lemma example_usages:
  "int_truediv 2097152 1048576 = Inr (Float 4503599627370496 (- 51))"
  "float_mul_100 (Float 4503599627370496 (- 51)) = Float 7036874417766400 (- 45)"
  "int_truediv 3072 10485760 = Inr (Float 5404319552844595 (- 64))"
  "float_mul_100 (Float 5404319552844595 (- 64)) = Float 8444249301319680 (- 58)"
  by (simp_all add: float_eval)

lemma example_status_in_range:
  "status_in_float_range example_fs (monitoring_config example_monitor)"
  by (simp add: status_in_float_range_def example_monitor_def measured_def example_sizes
      float_range_def)

lemma example_entries:
  "map (\<lambda>(path, limit). expected_entry example_fs path limit) (monitoring_config example_monitor)
     = folders example_status"
  by (simp add: example_monitor_def example_status_def expected_entry_def example_sizes
      formatted_def example_formats expected_usage_def example_usages not_found_message_def
      del: float_mul_100.simps)

lemma status_raises_on_huge_limit:
  "get_monitoring_status example_fs
     \<lparr>monitoring_config = [(''/empty'', 5), (''/data'', 2 ^ 1024)], alerts_triggered = []\<rparr>
   = Inl OverflowError"
proof -
  have "\<not> float_range (2 ^ 1024)" by (simp add: float_range_def)
  then have huge: "format_size (2 ^ 1024) = Inl OverflowError" by (rule format_size_overflow)
  have sizes: "get_folder_size example_fs ''/empty'' = Inr 0"
    by (simp add: get_folder_size_def os_path_exists_def os_path_isdir_def os_walk_from_def
        example_fs_def)
  have small: "format_size 0 = Inr ''0.00 B''" "format_size 5 = Inr ''5.00 B''"
    "int_truediv 0 5 = Inr (Float 0 0)"
    by (simp_all add: float_eval)
  show ?thesis
    using huge
    by (simp add: get_monitoring_status_def folder_status_def usage_percentage_of_def sizes
        example_sizes example_formats small)
qed

text \<open>
  C8, as stated: the percentage is the quotient times 100 except when the limit is zero.
  A folder registered with the limit \<open>- 1\<close> megabyte has the limit \<open>- 1048576\<close>; for the
  3072 bytes of \<^verbatim>\<open>/data\<close> the status reports the integer 0, where the quotient times 100
  is the float \<open>- 0.29296875\<close>.
\<close>

theorem status_reports_zero_for_negative_limit:
  "call example_fs Status (snd (call example_fs (Register ''/data'' (- 1)) (init None))) =
     (ReturnsStatus
        \<lparr>total_folders_monitored = 1,
         folders =
           [FolderInfo
              \<lparr>info_path = ''/data'', info_current_size = 3072,
               info_current_size_formatted = ''3.00 KB'',
               info_size_limit = - 1048576,
               info_size_limit_formatted = ''-1048576.00 B'',
               usage_percentage = PyInt 0, is_over_limit = True\<rparr>],
         total_alerts_triggered = 0\<rparr>,
      \<lparr>monitoring_config = [(''/data'', - 1048576)], alerts_triggered = []\<rparr>)
   \<and> int_truediv 3072 (- 1048576) = Inr (Float (- 6755399441055744) (- 61))
   \<and> float_mul_100 (Float (- 6755399441055744) (- 61)) = Float (- 5277655813324800) (- 54)
   \<and> float_value (Float (- 5277655813324800) (- 54)) = - 75 / 256"
proof -
  have r: "snd (call example_fs (Register ''/data'' (- 1)) (init None)) =
             \<lparr>monitoring_config = [(''/data'', - 1048576)], alerts_triggered = []\<rparr>"
    by (simp add: add_folder_to_monitor_def os_path_exists_def os_path_isdir_def example_fs_def
        init_def)
  have f: "format_size 3072 = Inr ''3.00 KB''" "format_size (- 1048576) = Inr ''-1048576.00 B''"
    by (simp_all add: float_eval)
  have s: "call example_fs Status
             \<lparr>monitoring_config = [(''/data'', - 1048576)], alerts_triggered = []\<rparr> =
           (ReturnsStatus
              \<lparr>total_folders_monitored = 1,
               folders =
                 [FolderInfo
                    \<lparr>info_path = ''/data'', info_current_size = 3072,
                     info_current_size_formatted = ''3.00 KB'',
                     info_size_limit = - 1048576,
                     info_size_limit_formatted = ''-1048576.00 B'',
                     usage_percentage = PyInt 0, is_over_limit = True\<rparr>],
               total_alerts_triggered = 0\<rparr>,
            \<lparr>monitoring_config = [(''/data'', - 1048576)], alerts_triggered = []\<rparr>)"
    by (simp add: get_monitoring_status_def folder_status_def usage_percentage_of_def
        example_sizes f)
  have d: "int_truediv 3072 (- 1048576) = Inr (Float (- 6755399441055744) (- 61))"
    by (simp add: float_eval)
  have p: "float_mul_100 (Float (- 6755399441055744) (- 61)) = Float (- 5277655813324800) (- 54)"
    by (simp add: float_eval)
  have v: "float_value (Float (- 5277655813324800) (- 54)) = - 75 / 256"
    by (simp add: power_int_minus)
  show ?thesis unfolding r by (intro conjI) (fact s, fact d, fact p, fact v)
qed

text \<open>
  C8. \<^verbatim>\<open>get_monitoring_status\<close> assigns to no attribute of the monitor. When the measured
  sizes and the limits convert to floats it returns the number of entries, the number of
  alerts and one entry for each folder of the watch-list, in its order: the path and the
  message of the error for a folder that cannot be measured, and otherwise the measured
  size, the limit, both formatted by \<^verbatim>\<open>format_size\<close>, whether the size exceeds the limit,
  and the percentage, which is the float \<open>current_size / size_limit * 100\<close> when the limit
  is positive and the integer 0 when the limit is zero or negative. The one exception it
  can raise is \<^verbatim>\<open>OverflowError\<close>, and then a size or a limit does not convert to a float.
\<close>

theorem status_reports_each_entry:
  "snd (call fs Status m) = m
   \<and> (status_in_float_range fs (monitoring_config m) \<longrightarrow>
        get_monitoring_status fs m =
          Inr \<lparr>total_folders_monitored = length (monitoring_config m),
               folders = map (\<lambda>(path, limit). expected_entry fs path limit) (monitoring_config m),
               total_alerts_triggered = length (alerts_triggered m)\<rparr>
        \<and> (\<forall>(path, limit) \<in> set (monitoring_config m).
             (\<forall>msg. get_folder_size fs path = Inl (OSError msg) \<longrightarrow>
                expected_entry fs path limit = FolderError path msg)
             \<and> (\<forall>n. get_folder_size fs path = Inr n \<longrightarrow>
                  (\<exists>info. expected_entry fs path limit = FolderInfo info
                     \<and> info_path info = path
                     \<and> info_current_size info = n \<and> info_size_limit info = limit
                     \<and> format_size n = Inr (info_current_size_formatted info)
                     \<and> format_size limit = Inr (info_size_limit_formatted info)
                     \<and> is_over_limit info = (limit < n)
                     \<and> (limit \<le> 0 \<longrightarrow> usage_percentage info = PyInt 0)
                     \<and> (0 < limit \<longrightarrow>
                          (\<exists>x. int_truediv n limit = Inr x
                             \<and> usage_percentage info = PyFloat (float_mul_100 x)))))))
   \<and> (\<forall>e. get_monitoring_status fs m = Inl e \<longrightarrow>
        e = OverflowError \<and> \<not> status_in_float_range fs (monitoring_config m))"
proof -
  have unchanged: "snd (call fs Status m) = m" by (simp split: sum.splits)
  have returns: "get_monitoring_status fs m =
          Inr \<lparr>total_folders_monitored = length (monitoring_config m),
               folders = map (\<lambda>(path, limit). expected_entry fs path limit) (monitoring_config m),
               total_alerts_triggered = length (alerts_triggered m)\<rparr>"
    if "status_in_float_range fs (monitoring_config m)"
    using status_entries_in_range [OF that, of "[]"] by (simp add: get_monitoring_status_def)
  have unmeasured: "expected_entry fs path limit = FolderError path msg"
    if "get_folder_size fs path = Inl (OSError msg)" for path limit msg
    using that by (simp add: expected_entry_def)
  have measured: "\<exists>info. expected_entry fs path limit = FolderInfo info
                     \<and> info_path info = path
                     \<and> info_current_size info = n \<and> info_size_limit info = limit
                     \<and> format_size n = Inr (info_current_size_formatted info)
                     \<and> format_size limit = Inr (info_size_limit_formatted info)
                     \<and> is_over_limit info = (limit < n)
                     \<and> (limit \<le> 0 \<longrightarrow> usage_percentage info = PyInt 0)
                     \<and> (0 < limit \<longrightarrow>
                          (\<exists>x. int_truediv n limit = Inr x
                             \<and> usage_percentage info = PyFloat (float_mul_100 x)))"
    if range: "status_in_float_range fs (monitoring_config m)"
      and entry: "(path, limit) \<in> set (monitoring_config m)"
      and size: "get_folder_size fs path = Inr n" for path limit n
  proof -
    from range entry size have n: "float_range n" and l: "float_range limit"
      by (auto simp: status_in_float_range_def measured_def)
    have nonneg: "0 \<le> n" using size by (rule get_folder_size_nonneg)
    have usage: "\<exists>x. int_truediv n limit = Inr x
                   \<and> expected_usage n limit = PyFloat (float_mul_100 x)" if "0 < limit"
    proof -
      from int_truediv_finite [OF nonneg that n]
      obtain k e where "int_truediv n limit = Inr (Float k e)" by blast
      then show ?thesis using that by (simp add: expected_usage_def)
    qed
    have zero: "expected_usage n limit = PyInt 0" if "limit \<le> 0"
      using that by (simp add: expected_usage_def)
    show ?thesis
      using size usage zero
      by (simp add: expected_entry_def format_size_formatted [OF n] format_size_formatted [OF l])
  qed
  have raises: "e = OverflowError \<and> \<not> status_in_float_range fs (monitoring_config m)"
    if "get_monitoring_status fs m = Inl e" for e
  proof -
    from that have "status_entries fs (monitoring_config m) [] = Inl e"
      by (simp add: get_monitoring_status_def split: sum.splits)
    then have "e = OverflowError" by (rule status_entries_raises)
    moreover have "\<not> status_in_float_range fs (monitoring_config m)"
      using returns that by auto
    ultimately show ?thesis by simp
  qed
  show ?thesis using unchanged returns unmeasured measured raises by blast
qed

theorem status_reports_each_entry_witness:
  "status_in_float_range example_fs (monitoring_config example_monitor)
   \<and> get_monitoring_status example_fs example_monitor = Inr example_status
   \<and> snd (call example_fs Status example_monitor) = example_monitor
   \<and> get_monitoring_status example_fs
       \<lparr>monitoring_config = [(''/empty'', 5), (''/data'', 2 ^ 1024)], alerts_triggered = []\<rparr>
     = Inl OverflowError
   \<and> \<not> status_in_float_range example_fs [(''/empty'', 5), (''/data'', 2 ^ 1024)]"
proof -
  note main = status_reports_each_entry [of example_fs example_monitor]
  have "get_monitoring_status example_fs example_monitor = Inr example_status"
    using main example_status_in_range
    by (simp add: example_entries) (simp add: example_monitor_def example_status_def)
  moreover have "snd (call example_fs Status example_monitor) = example_monitor"
    using main by blast
  moreover have "\<not> status_in_float_range example_fs [(''/empty'', 5), (''/data'', 2 ^ 1024)]"
    using status_reports_each_entry
      [of example_fs
        "\<lparr>monitoring_config = [(''/empty'', 5), (''/data'', 2 ^ 1024)], alerts_triggered = []\<rparr>"]
      status_raises_on_huge_limit
    by simp
  ultimately show ?thesis using example_status_in_range status_raises_on_huge_limit by simp
qed

end
